theory Spec2Isabelle
  imports
    Main
    "HOL-Library.Word"
    "HOL-Library.Char_ord"
    "HOL-Library.List_Lexorder"
    "HOL-Library.AList"
    "HOL-Library.Multiset"
begin

section \<open>Byte strings and the functions of Go's \<open>strings\<close> package that the code calls\<close>

text \<open>
  A Go string is a sequence of bytes: \<^typ>\<open>string\<close>. The functions below act on ASCII the
  way Go does. For runes beyond ASCII Go's \<open>ToLower\<close> and \<open>TrimSpace\<close> follow the Unicode
  tables; such bytes are left alone here. No theorem of this file depends on which bytes
  \<open>ToLower\<close> changes or which ones \<open>TrimSpace\<close> removes.
\<close>

definition toLower_byte :: "char \<Rightarrow> char" where
  "toLower_byte c =
     (let n = (of_char c :: nat) in if 65 \<le> n \<and> n \<le> 90 then char_of (n + 32) else c)"

definition ToLower :: "string \<Rightarrow> string" where
  "ToLower s = map toLower_byte s"

definition isSpace_byte :: "char \<Rightarrow> bool" where
  "isSpace_byte c = (c \<in> set [CHR 0x09, CHR 0x0A, CHR 0x0B, CHR 0x0C, CHR 0x0D, CHR '' ''])"

definition TrimSpace :: "string \<Rightarrow> string" where
  "TrimSpace s = rev (dropWhile isSpace_byte (rev (dropWhile isSpace_byte s)))"

definition HasPrefix :: "string \<Rightarrow> string \<Rightarrow> bool" where
  "HasPrefix s p = (length p \<le> length s \<and> take (length p) s = p)"

definition HasSuffix :: "string \<Rightarrow> string \<Rightarrow> bool" where
  "HasSuffix s p = (length p \<le> length s \<and> drop (length s - length p) s = p)"

definition TrimPrefix :: "string \<Rightarrow> string \<Rightarrow> string" where
  "TrimPrefix s p = (if HasPrefix s p then drop (length p) s else s)"

definition TrimSuffix :: "string \<Rightarrow> string \<Rightarrow> string" where
  "TrimSuffix s p = (if HasSuffix s p then take (length s - length p) s else s)"

text \<open>
  \<open>strings.Split(s, sep)\<close> for a separator of one byte (the code only splits at \<open>"."\<close>):
  the pieces between the separators, so \<open>n\<close> separators give \<open>n + 1\<close> pieces and the empty
  string gives one empty piece.
\<close>

fun Split :: "string \<Rightarrow> char \<Rightarrow> string list" where
  "Split [] sep = [[]]"
| "Split (c # cs) sep =
     (if c = sep then [] # Split cs sep
      else (case Split cs sep of
              [] \<Rightarrow> [[c]]
            | p # ps \<Rightarrow> (c # p) # ps))"

text \<open>\<open>strings.Join(elems, sep)\<close>, with the separator as a string.\<close>

fun Join :: "string list \<Rightarrow> string \<Rightarrow> string" where
  "Join [] sep = []"
| "Join [x] sep = x"
| "Join (x # y # ys) sep = x @ sep @ Join (y # ys) sep"

section \<open>The filter engine (\<open>internal/filter/engine.go\<close>)\<close>

subsection \<open>Configuration and state\<close>

text \<open>
  The fields of \<open>config.ScheduleRule\<close> and \<open>config.ScheduleConfig\<close> that the engine reads.
  Field names that several Go structs share carry the struct as a prefix.
\<close>

record ScheduleRule =
  Days :: "string list"
  StartTime :: string
  EndTime :: string
  StrictMode :: bool

record ScheduleConfig =
  sched_Enabled :: bool
  Rules :: "ScheduleRule list"

text \<open>
  What \<open>ShouldBlock\<close> takes from \<open>time.Now()\<close>: the weekday and the local time printed with
  the layout \<open>"15:04"\<close>.
\<close>

datatype Weekday = Sunday | Monday | Tuesday | Wednesday | Thursday | Friday | Saturday

fun Weekday_String :: "Weekday \<Rightarrow> string" where
  "Weekday_String Sunday = ''Sunday''"
| "Weekday_String Monday = ''Monday''"
| "Weekday_String Tuesday = ''Tuesday''"
| "Weekday_String Wednesday = ''Wednesday''"
| "Weekday_String Thursday = ''Thursday''"
| "Weekday_String Friday = ''Friday''"
| "Weekday_String Saturday = ''Saturday''"

record WallClock =
  weekday :: Weekday
  format_15_04 :: string

text \<open>
  The three \<open>map[string]bool\<close> fields of \<open>Engine\<close>. The code only ever stores \<open>true\<close> in
  them and removes keys with \<open>delete\<close>, so each map is the set of its keys.
\<close>

record Engine =
  blockedDomains :: "string set"
  customBlocked :: "string set"
  whitelist :: "string set"

definition normalizeDomain :: "string \<Rightarrow> string" where
  "normalizeDomain domain = TrimSuffix (ToLower (TrimSpace domain)) ''.''"

subsection \<open>\<open>isWhitelisted\<close>, \<open>isInAllowedTime\<close>, \<open>ShouldBlock\<close>\<close>

text \<open>
  The \<open>range\<close> loop over the whitelist returns true at the first entry that starts with
  \<open>"*."\<close> and whose remainder is a string suffix of the domain: an existential over the keys.
\<close>

definition isWhitelisted :: "Engine \<Rightarrow> string \<Rightarrow> bool" where
  "isWhitelisted e domain =
     (if domain \<in> whitelist e then True
      else (\<exists>whitelistedDomain \<in> whitelist e.
              HasPrefix whitelistedDomain ''*.'' \<and>
              HasSuffix domain (TrimPrefix whitelistedDomain ''*.'')))"

fun dayMatch :: "string list \<Rightarrow> string \<Rightarrow> bool" where
  "dayMatch [] currentDay = False"
| "dayMatch (day # days) currentDay =
     (if ToLower day = currentDay then True else dayMatch days currentDay)"

fun allowed_by_rules :: "ScheduleRule list \<Rightarrow> string \<Rightarrow> string \<Rightarrow> bool" where
  "allowed_by_rules [] currentDay currentTime = True"
| "allowed_by_rules (rule # rules) currentDay currentTime =
     (if \<not> dayMatch (Days rule) currentDay then allowed_by_rules rules currentDay currentTime
      else if currentTime \<ge> StartTime rule \<and> currentTime \<le> EndTime rule then False
      else allowed_by_rules rules currentDay currentTime)"

definition isInAllowedTime :: "ScheduleConfig \<Rightarrow> WallClock \<Rightarrow> bool" where
  "isInAllowedTime sched now =
     (if length (Rules sched) = 0 then True
      else allowed_by_rules (Rules sched)
             (ToLower (Weekday_String (weekday now))) (format_15_04 now))"

text \<open>
  The loop \<open>for i := 1; i < len(parts); i++\<close> of \<open>ShouldBlock\<close>, entered at \<open>i\<close>.
\<close>

function parent_loop :: "Engine \<Rightarrow> string list \<Rightarrow> nat \<Rightarrow> bool" where
  "parent_loop e parts i =
     (if i < length parts then
        (let parent = Join (drop i parts) ''.'' in
         if parent \<in> blockedDomains e \<or> parent \<in> customBlocked e then True
         else parent_loop e parts (i + 1))
      else False)"
  by pat_completeness auto
termination
  by (relation "measure (\<lambda>(e, parts, i). length parts - i)") auto

declare parent_loop.simps [simp del]

definition ShouldBlock :: "ScheduleConfig \<Rightarrow> WallClock \<Rightarrow> Engine \<Rightarrow> string \<Rightarrow> string \<Rightarrow> bool" where
  "ShouldBlock sched now e domain0 clientIP =
     (let domain = normalizeDomain domain0 in
      if domain = [] then False
      else if isWhitelisted e domain then False
      else if sched_Enabled sched \<and> \<not> isInAllowedTime sched now
              \<and> length (Rules sched) > 0 \<and> StrictMode (Rules sched ! 0) then True
      else if domain \<in> customBlocked e then True
      else if domain \<in> blockedDomains e then True
      else parent_loop e (Split domain CHR ''.'') 1)"

subsection \<open>The mutators of the custom set\<close>

definition AddToCustomBlocklist :: "Engine \<Rightarrow> string \<Rightarrow> Engine" where
  "AddToCustomBlocklist e domain =
     e\<lparr>customBlocked := insert (normalizeDomain domain) (customBlocked e)\<rparr>"

definition RemoveFromCustomBlocklist :: "Engine \<Rightarrow> string \<Rightarrow> Engine" where
  "RemoveFromCustomBlocklist e domain =
     e\<lparr>customBlocked := customBlocked e - {normalizeDomain domain}\<rparr>"

definition empty_Engine :: Engine where
  "empty_Engine = \<lparr>blockedDomains = {}, customBlocked = {}, whitelist = {}\<rparr>"

subsection \<open>The specification's suffix match\<close>

text \<open>
  The specification's words: a name with labels \<open>l\<^sub>0 \<dots> l\<^sub>k\<^sub>-\<^sub>1\<close> matches when, for some
  \<open>i\<close> in \<open>0..k-1\<close>, the labels \<open>i..k-1\<close> joined by dots are in the custom or the remote set.
\<close>

definition label_suffixes :: "string \<Rightarrow> string list" where
  "label_suffixes name =
     (let labels = Split name CHR ''.'' in
      map (\<lambda>i. Join (drop i labels) ''.'') [0..<length labels])"

definition spec_suffix_match :: "Engine \<Rightarrow> string \<Rightarrow> bool" where
  "spec_suffix_match e name =
     (\<exists>s \<in> set (label_suffixes name). s \<in> customBlocked e \<or> s \<in> blockedDomains e)"

text \<open>
  The specification's words: a rule matches when today's weekday is among its days and
  \<open>start \<le> HH:MM \<le> end\<close>, compared as strings.
\<close>

definition spec_rule_matches :: "ScheduleRule \<Rightarrow> WallClock \<Rightarrow> bool" where
  "spec_rule_matches rule now =
     (ToLower (Weekday_String (weekday now)) \<in> set (map ToLower (Days rule))
      \<and> StartTime rule \<le> format_15_04 now \<and> format_15_04 now \<le> EndTime rule)"

subsection \<open>Ingestion: what the engine reads from the network and the file system\<close>

record BlocklistSource =
  src_Name :: string
  URL :: string
  src_Category :: string
  src_Enabled :: bool

record CustomBlocklistEntry =
  Domain :: string
  entry_Category :: string
  Note :: string
  entry_Enabled :: bool

record CustomBlocklist =
  Version :: string
  LastUpdated :: string
  Domains :: "CustomBlocklistEntry list"

record BlocklistsConfig =
  Sources :: "BlocklistSource list"
  CustomPath :: string

datatype fetch_error = TransportError string | HTTPStatus nat | ScannerError string |
  OpenError string | GlobError string | ReadError string | YAMLError string

text \<open>
  The outside world as the engine sees it. \<open>httpGet\<close> is \<open>httpClient.Get\<close>: a transport
  error, or the status code with the lines of the body as \<open>bufio.Scanner\<close> yields them and
  the value of \<open>scanner.Err()\<close> after the last line. \<open>openFile\<close> is \<open>os.Open\<close> followed by
  the scanner in the same way. \<open>Glob\<close> is \<open>filepath.Glob\<close>, \<open>ReadFile\<close> is \<open>os.ReadFile\<close>,
  \<open>yaml_Unmarshal\<close> is the YAML library's parser into a \<open>CustomBlocklist\<close>.
\<close>

record World =
  httpGet :: "string \<Rightarrow> fetch_error + (nat \<times> string list \<times> fetch_error option)"
  openFile :: "string \<Rightarrow> fetch_error + (string list \<times> fetch_error option)"
  Glob :: "string \<Rightarrow> string list \<times> fetch_error option"
  ReadFile :: "string \<Rightarrow> fetch_error + string"
  yaml_Unmarshal :: "string \<Rightarrow> fetch_error + CustomBlocklist"

text \<open>
  \<open>strings.Fields\<close>: the maximal runs of bytes that are not white space, for the six
  ASCII white-space bytes (Go also splits at Unicode white space).
\<close>

function Fields :: "string \<Rightarrow> string list" where
  "Fields s =
     (case dropWhile isSpace_byte s of
        [] \<Rightarrow> []
      | c # cs \<Rightarrow> takeWhile (\<lambda>b. \<not> isSpace_byte b) (c # cs)
                 # Fields (dropWhile (\<lambda>b. \<not> isSpace_byte b) (c # cs)))"
  by pat_completeness auto
termination
proof (relation "measure length")
  show "wf (measure length)" by simp
next
  fix s :: string and c cs
  assume d: "dropWhile isSpace_byte s = c # cs"
  then have nsp: "\<not> isSpace_byte c"
    by (metis hd_dropWhile list.sel(1) list.distinct(1))
  have "length (dropWhile (\<lambda>b. \<not> isSpace_byte b) (c # cs)) \<le> length cs"
    using nsp by (simp add: length_dropWhile_le)
  also have "\<dots> < length (c # cs)" by simp
  also have "\<dots> \<le> length s"
    using d length_dropWhile_le [of isSpace_byte s] by simp
  finally show "(dropWhile (\<lambda>b. \<not> isSpace_byte b) (c # cs), s) \<in> measure length"
    by simp
qed

declare Fields.simps [simp del]

text \<open>
  \<open>domain[:idx]\<close> for \<open>idx = strings.IndexAny(domain, chars)\<close>, and the whole string when
  no byte of \<open>chars\<close> occurs (\<open>idx = -1\<close>).
\<close>

definition cut_at_IndexAny :: "string \<Rightarrow> string \<Rightarrow> string" where
  "cut_at_IndexAny domain chars =
     (let idx = length (takeWhile (\<lambda>b. b \<notin> set chars) domain) in
      if idx < length domain then take idx domain else domain)"

definition parseDomainFromLine :: "string \<Rightarrow> string" where
  "parseDomainFromLine line =
     (let fields = Fields line in
      if (HasPrefix line ''0.0.0.0'' \<or> HasPrefix line ''127.0.0.1'') \<and> length fields \<ge> 2 then
        (let d = fields ! 1 in
         if d = ''localhost'' \<or> d = ''0.0.0.0'' \<or> d = ''127.0.0.1'' then [] else d)
      else if HasPrefix line ''||'' then
        cut_at_IndexAny (TrimSuffix (TrimPrefix line ''||'') ''^'') ''/^?''
      else if CHR '' '' \<notin> set line \<and> CHR ''.'' \<in> set line then line
      else [])"

text \<open>
  The two scanner loops. The one over an HTTP body skips comment lines that start with
  \<open>#\<close> or \<open>!\<close>; the one over a local file skips only those that start with \<open>#\<close>.
\<close>

fun scan_http_lines :: "string list \<Rightarrow> string list \<Rightarrow> string list" where
  "scan_http_lines [] domains = domains"
| "scan_http_lines (text # rest) domains =
     (let line = TrimSpace text in
      if line = [] \<or> HasPrefix line ''#'' \<or> HasPrefix line ''!'' then scan_http_lines rest domains
      else (let domain = parseDomainFromLine line in
            if domain \<noteq> [] then scan_http_lines rest (domains @ [normalizeDomain domain])
            else scan_http_lines rest domains))"

fun scan_file_lines :: "string list \<Rightarrow> string list \<Rightarrow> string list" where
  "scan_file_lines [] domains = domains"
| "scan_file_lines (text # rest) domains =
     (let line = TrimSpace text in
      if line = [] \<or> HasPrefix line ''#'' then scan_file_lines rest domains
      else (let domain = parseDomainFromLine line in
            if domain \<noteq> [] then scan_file_lines rest (domains @ [normalizeDomain domain])
            else scan_file_lines rest domains))"

text \<open>
  Both fetch functions return the pair \<open>(domains, err)\<close> as the Go code does; after the
  scanner loop both components can be set.
\<close>

definition fetchLocalBlocklist :: "World \<Rightarrow> string \<Rightarrow> string list \<times> fetch_error option" where
  "fetchLocalBlocklist w path =
     (case openFile w path of
        Inl err \<Rightarrow> ([], Some err)
      | Inr (lines, scanner_Err) \<Rightarrow> (scan_file_lines lines [], scanner_Err))"

definition fetchBlocklist :: "World \<Rightarrow> string \<Rightarrow> string list \<times> fetch_error option" where
  "fetchBlocklist w url =
     (if HasPrefix url ''file://'' then fetchLocalBlocklist w (TrimPrefix url ''file://'')
      else (case httpGet w url of
              Inl err \<Rightarrow> ([], Some err)
            | Inr (StatusCode, lines, scanner_Err) \<Rightarrow>
                if StatusCode \<noteq> 200 then ([], Some (HTTPStatus StatusCode))
                else (scan_http_lines lines [], scanner_Err)))"

subsection \<open>\<open>loadCustomYAMLBlocklists\<close>, \<open>ReloadCustomBlocklists\<close>, \<open>UpdateBlocklists\<close>\<close>

fun entries_loop :: "CustomBlocklistEntry list \<Rightarrow> string set \<times> nat \<Rightarrow> string set \<times> nat" where
  "entries_loop [] acc = acc"
| "entries_loop (entry # rest) (result, cnt) =
     (if \<not> entry_Enabled entry then entries_loop rest (result, cnt)
      else (let domain = normalizeDomain (Domain entry) in
            if domain \<noteq> [] then entries_loop rest (insert domain result, cnt + 1)
            else entries_loop rest (result, cnt)))"

fun files_loop :: "World \<Rightarrow> string list \<Rightarrow> string set \<times> nat \<Rightarrow> string set \<times> nat" where
  "files_loop w [] acc = acc"
| "files_loop w (file # rest) acc =
     (case ReadFile w file of
        Inl err \<Rightarrow> files_loop w rest acc
      | Inr data \<Rightarrow>
          (case yaml_Unmarshal w data of
             Inl err \<Rightarrow> files_loop w rest acc
           | Inr bl \<Rightarrow> files_loop w rest (entries_loop (Domains bl) acc)))"

definition loadCustomYAMLBlocklists :: "BlocklistsConfig \<Rightarrow> World \<Rightarrow> string set \<times> nat" where
  "loadCustomYAMLBlocklists cfg w =
     (case Glob w (CustomPath cfg) of
        (files, err) \<Rightarrow>
          if err \<noteq> None \<or> length files = 0 then ({}, 0)
          else files_loop w files ({}, 0))"

text \<open>
  \<open>ReloadCustomBlocklists\<close> returns \<open>(count, nil)\<close>: the new engine, the count and the error.
\<close>

definition ReloadCustomBlocklists ::
  "BlocklistsConfig \<Rightarrow> World \<Rightarrow> Engine \<Rightarrow> Engine \<times> nat \<times> fetch_error option" where
  "ReloadCustomBlocklists cfg w e =
     (case loadCustomYAMLBlocklists cfg w of
        (customDomains, cnt) \<Rightarrow>
          (e\<lparr>customBlocked := customBlocked e \<union> customDomains\<rparr>,
           cnt, None))"

fun sources_loop :: "World \<Rightarrow> BlocklistSource list \<Rightarrow> string set \<times> nat \<Rightarrow> string set \<times> nat" where
  "sources_loop w [] acc = acc"
| "sources_loop w (source # rest) (newBlocked, totalDomains) =
     (if \<not> src_Enabled source then sources_loop w rest (newBlocked, totalDomains)
      else (case fetchBlocklist w (URL source) of
              (domains, Some err) \<Rightarrow> sources_loop w rest (newBlocked, totalDomains)
            | (domains, None) \<Rightarrow>
                sources_loop w rest (fold insert domains newBlocked,
                                     totalDomains + length domains)))"

text \<open>
  \<open>UpdateBlocklists\<close> ends in \<open>return nil\<close> on its only path; an error of
  \<open>db.SaveBlocklist\<close> is logged and dropped. The result is the new engine, the set handed
  to \<open>db.SaveBlocklist\<close> and the returned error.
\<close>

definition UpdateBlocklists ::
  "BlocklistsConfig \<Rightarrow> World \<Rightarrow> Engine \<Rightarrow> Engine \<times> string set \<times> fetch_error option" where
  "UpdateBlocklists cfg w e =
     (case sources_loop w (Sources cfg) ({}, 0) of
        (fetched, totalDomains) \<Rightarrow>
          (case loadCustomYAMLBlocklists cfg w of
             (customDomains, customCount) \<Rightarrow>
               (let newBlocked = fetched \<union> customDomains in
                (e\<lparr>blockedDomains := newBlocked\<rparr>, newBlocked, None))))"

definition GetBlockedCount :: "Engine \<Rightarrow> nat" where
  "GetBlockedCount e = card (blockedDomains e) + card (customBlocked e)"

subsection \<open>The sets and counts that the claims about ingestion speak of\<close>

text \<open>
  The custom blocklists that a reload finds: the files matched by the configured glob
  that can be read and parsed. \<open>spec_custom_domains\<close> follows the specification's words,
  the normalized forms of the enabled entries of those files; \<open>loaded_domains\<close> are the
  entries the loader counts, one per enabled entry whose normalized domain is not empty.
  \<open>enabled_source_outputs\<close> is the union of the parsed outputs of the enabled sources
  whose fetch returned no error.
\<close>

definition parsed_file :: "World \<Rightarrow> string \<Rightarrow> CustomBlocklist list" where
  "parsed_file w path =
     (case ReadFile w path of
        Inl e1 \<Rightarrow> []
      | Inr data \<Rightarrow> (case yaml_Unmarshal w data of Inl e2 \<Rightarrow> [] | Inr bl \<Rightarrow> [bl]))"

definition matched_blocklists :: "BlocklistsConfig \<Rightarrow> World \<Rightarrow> CustomBlocklist list" where
  "matched_blocklists cfg w =
     (case Glob w (CustomPath cfg) of
        (files, err) \<Rightarrow> if err \<noteq> None then [] else concat (map (parsed_file w) files))"

definition enabled_entries :: "BlocklistsConfig \<Rightarrow> World \<Rightarrow> CustomBlocklistEntry list" where
  "enabled_entries cfg w = filter entry_Enabled (concat (map Domains (matched_blocklists cfg w)))"

definition spec_custom_domains :: "BlocklistsConfig \<Rightarrow> World \<Rightarrow> string set" where
  "spec_custom_domains cfg w = set (map (\<lambda>entry. normalizeDomain (Domain entry)) (enabled_entries cfg w))"

definition loaded_domains :: "CustomBlocklistEntry list \<Rightarrow> string list" where
  "loaded_domains es =
     filter (\<lambda>d. d \<noteq> []) (map (\<lambda>entry. normalizeDomain (Domain entry)) (filter entry_Enabled es))"

definition fetched_ok :: "World \<Rightarrow> BlocklistSource \<Rightarrow> bool" where
  "fetched_ok w source = (src_Enabled source \<and> snd (fetchBlocklist w (URL source)) = None)"

definition enabled_source_outputs :: "BlocklistsConfig \<Rightarrow> World \<Rightarrow> string set" where
  "enabled_source_outputs cfg w =
     set (concat (map (\<lambda>source. fst (fetchBlocklist w (URL source)))
                      (filter (fetched_ok w) (Sources cfg))))"

section \<open>The upstream pool\<close>

record UpstreamPool =
  servers :: "string list"
  index :: "32 word"

definition NewUpstreamPool :: "string list \<Rightarrow> UpstreamPool" where
  "NewUpstreamPool srvs =
     \<lparr>servers = (if length srvs = 0 then [''8.8.8.8:53''] else srvs), index = 0\<rparr>"

text \<open>
  \<open>Get\<close> returns the chosen server and the pool with the index after
  \<open>atomic.AddUint32(&p.index, 1)\<close>. The index is a \<open>uint32\<close> and the length is converted
  with \<open>uint32(len(p.servers))\<close>; when that conversion gives zero the remainder panics,
  which is the result \<open>None\<close>.
\<close>

definition Get :: "UpstreamPool \<Rightarrow> string option \<times> UpstreamPool" where
  "Get p =
     (if length (servers p) = 0 then (Some ''8.8.8.8:53'', p)
      else if length (servers p) = 1 then (Some (servers p ! 0), p)
      else (let idx = index p + 1;
                p' = p\<lparr>index := idx\<rparr>;
                n = (word_of_nat (length (servers p)) :: 32 word)
            in if n = 0 then (None, p')
               else (Some (servers p ! unat (idx mod n)), p')))"

text \<open>The results of \<open>n\<close> consecutive calls of \<open>Get\<close>, in order.\<close>

fun Get_calls :: "nat \<Rightarrow> UpstreamPool \<Rightarrow> string option list" where
  "Get_calls 0 p = []"
| "Get_calls (Suc n) p = fst (Get p) # Get_calls n (snd (Get p))"

text \<open>The pool after \<open>n\<close> consecutive calls of \<open>Get\<close>.\<close>

fun pool_after :: "nat \<Rightarrow> UpstreamPool \<Rightarrow> UpstreamPool" where
  "pool_after 0 p = p"
| "pool_after (Suc n) p = pool_after n (snd (Get p))"

section \<open>DNS messages (the fields of \<open>dns.Msg\<close> that the server reads or writes)\<close>

record DNSQuestion =
  Name :: string
  Qtype :: "16 word"
  Qclass :: "16 word"

record RR =
  rr_Name :: string
  Rrtype :: "16 word"
  Class :: "16 word"
  Ttl :: "32 word"
  Rdata :: string

record Msg =
  Id :: "16 word"
  Response :: bool
  Opcode :: nat
  Authoritative :: bool
  RecursionDesired :: bool
  CheckingDisabled :: bool
  Rcode :: nat
  Question :: "DNSQuestion list"
  Answer :: "RR list"
  Ns :: "RR list"
  Extra :: "RR list"

definition RcodeSuccess :: nat where "RcodeSuccess = 0"
definition RcodeServerFailure :: nat where "RcodeServerFailure = 2"
definition RcodeNameError :: nat where "RcodeNameError = 3"
definition OpcodeQuery :: nat where "OpcodeQuery = 0"
definition TypeA :: "16 word" where "TypeA = 1"
definition ClassINET :: "16 word" where "ClassINET = 1"

text \<open>\<open>new(dns.Msg)\<close>: every field at its zero value.\<close>

definition new_Msg :: Msg where
  "new_Msg = \<lparr>Id = 0, Response = False, Opcode = 0, Authoritative = False,
              RecursionDesired = False, CheckingDisabled = False, Rcode = 0,
              Question = [], Answer = [], Ns = [], Extra = []\<rparr>"

text \<open>
  \<open>m.SetReply(r)\<close> and \<open>m.SetRcode(r, rcode)\<close> of the DNS library: the reply takes the
  request's id and opcode, the response bit, rcode success and the request's first question.
\<close>

definition SetReply :: "Msg \<Rightarrow> Msg \<Rightarrow> Msg" where
  "SetReply m request =
     m\<lparr>Id := Id request, Response := True, Opcode := Opcode request,
       RecursionDesired :=
         (if Opcode request = OpcodeQuery then RecursionDesired request else RecursionDesired m),
       CheckingDisabled :=
         (if Opcode request = OpcodeQuery then CheckingDisabled request else CheckingDisabled m),
       Rcode := RcodeSuccess,
       Question := (if length (Question request) > 0 then [Question request ! 0] else Question m)\<rparr>"

definition SetRcode :: "Msg \<Rightarrow> Msg \<Rightarrow> nat \<Rightarrow> Msg" where
  "SetRcode m request rcode = (SetReply m request)\<lparr>Rcode := rcode\<rparr>"

section \<open>The DNS cache\<close>

record cacheEntry =
  response :: Msg
  timestamp :: int

text \<open>
  \<open>entries\<close> is a Go map from key strings to entries: an association list whose order
  is the order in which a \<open>range\<close> loop happens to visit the keys. \<open>ttl\<close> and the time
  stamps are in nanoseconds. The methods \<open>Get\<close>, \<open>Set\<close>, \<open>Clear\<close> and \<open>Size\<close> of
  \<open>DNSCache\<close> carry the prefix \<open>cache_\<close>; \<open>Get\<close> alone is the method of the pool.
\<close>

record DNSCache =
  entries :: "(string \<times> cacheEntry) list"
  maxSize :: int
  ttl :: int

definition NewDNSCache :: "int \<Rightarrow> int \<Rightarrow> DNSCache" where
  "NewDNSCache maxSize0 ttl0 = \<lparr>entries = [], maxSize = maxSize0, ttl = ttl0\<rparr>"

text \<open>
  \<open>dns.TypeToString\<close> is a table of the DNS library, a parameter here: a type that is
  not in the table reads as the empty string.
\<close>

definition makeKey :: "(16 word \<Rightarrow> string) \<Rightarrow> string \<Rightarrow> 16 word \<Rightarrow> string" where
  "makeKey TypeToString domain qtype = domain @ '':'' @ TypeToString qtype"

definition cache_Get ::
  "(16 word \<Rightarrow> string) \<Rightarrow> DNSCache \<Rightarrow> int \<Rightarrow> string \<Rightarrow> 16 word \<Rightarrow> Msg option" where
  "cache_Get TypeToString c now domain qtype =
     (let key = makeKey TypeToString domain qtype in
      case map_of (entries c) key of
        None \<Rightarrow> None
      | Some entry \<Rightarrow> if now - timestamp entry > ttl c then None else Some (response entry))"

fun oldest_loop ::
  "(string \<times> cacheEntry) list \<Rightarrow> string \<times> int \<times> bool \<Rightarrow> string \<times> int \<times> bool" where
  "oldest_loop [] st = st"
| "oldest_loop ((key, entry) # rest) (oldestKey, oldestTime, first) =
     (if first \<or> timestamp entry < oldestTime
      then oldest_loop rest (key, timestamp entry, False)
      else oldest_loop rest (oldestKey, oldestTime, first))"

definition evictOldest :: "DNSCache \<Rightarrow> DNSCache" where
  "evictOldest c =
     (case oldest_loop (entries c) ([], 0, True) of
        (oldestKey, oldestTime, first) \<Rightarrow>
          if oldestKey \<noteq> [] then c\<lparr>entries := AList.delete oldestKey (entries c)\<rparr> else c)"

definition cache_Set ::
  "(16 word \<Rightarrow> string) \<Rightarrow> DNSCache \<Rightarrow> int \<Rightarrow> string \<Rightarrow> 16 word \<Rightarrow> Msg \<Rightarrow> DNSCache" where
  "cache_Set TypeToString c now domain qtype resp =
     (let c1 = (if int (length (entries c)) \<ge> maxSize c then evictOldest c else c);
          key = makeKey TypeToString domain qtype
      in c1\<lparr>entries := AList.update key \<lparr>response = resp, timestamp = now\<rparr> (entries c1)\<rparr>)"

definition cache_Clear :: "DNSCache \<Rightarrow> DNSCache" where
  "cache_Clear c = c\<lparr>entries := []\<rparr>"


text \<open>One tick of the \<open>cleanup\<close> goroutine.\<close>

definition cleanup_tick :: "DNSCache \<Rightarrow> int \<Rightarrow> DNSCache" where
  "cleanup_tick c now =
     c\<lparr>entries := filter (\<lambda>(key, entry). \<not> (now - timestamp entry > ttl c)) (entries c)\<rparr>"

section \<open>The DNS server (\<open>internal/dns/server.go\<close>)\<close>

record Statistics =
  TotalQueries :: "64 word"
  BlockedQueries :: "64 word"
  CachedResponses :: "64 word"

record FilteringConfig =
  filt_Enabled :: bool
  BlockAction :: string
  RedirectIP :: string
  Schedule :: ScheduleConfig

text \<open>
  The server: the part of the configuration the handler reads, the filter engine, the
  cache, the pool, the counters, and the rows that \<open>db.LogBlockedQuery\<close> has written.
\<close>

record Server =
  filtering :: FilteringConfig
  filter_engine :: Engine
  cache :: DNSCache
  upstreamPool :: UpstreamPool
  stats :: Statistics
  blocked_queries :: "(string \<times> string \<times> int) list"

datatype exchange_error = Timeout | NetworkError string

text \<open>
  What one call of the handler takes from outside: the peer address, the clock when the
  request arrives and when the upstream has answered, the wall clock for the schedule,
  and the result of \<open>client.Exchange(r, upstream)\<close>.
\<close>

record Request =
  req_clientIP :: string
  req_now :: int
  req_now_Set :: int
  req_wall :: WallClock
  req_Exchange :: "Msg \<Rightarrow> string \<Rightarrow> exchange_error + Msg"

text \<open>
  \<open>time.Duration(CacheTTL) * time.Second\<close> is a product of 64-bit integers; it is
  written here on \<^typ>\<open>int\<close>, which agrees with it for every TTL below 9223372036 seconds.
\<close>

definition NewServer ::
  "FilteringConfig \<Rightarrow> string list \<Rightarrow> int \<Rightarrow> int \<Rightarrow> Engine \<Rightarrow> Server" where
  "NewServer fcfg UpstreamDNS CacheSize CacheTTL filterEngine =
     \<lparr>filtering = fcfg, filter_engine = filterEngine,
      cache = NewDNSCache CacheSize (CacheTTL * 1000000000),
      upstreamPool = NewUpstreamPool UpstreamDNS,
      stats = \<lparr>TotalQueries = 0, BlockedQueries = 0, CachedResponses = 0\<rparr>,
      blocked_queries = []\<rparr>"

text \<open>
  The A record of a redirect. \<open>Rdata\<close> holds the configured address as text; the code
  passes it through \<open>net.ParseIP\<close>, which gives a nil address for text that is not an
  IP address.
\<close>

definition block_answer :: "Msg \<Rightarrow> string \<Rightarrow> RR" where
  "block_answer r ip =
     \<lparr>rr_Name = Name (Question r ! 0), Rrtype = TypeA, Class = ClassINET, Ttl = 300, Rdata = ip\<rparr>"

definition handleBlockedDomain ::
  "Server \<Rightarrow> Request \<Rightarrow> Msg \<Rightarrow> Msg \<Rightarrow> string \<Rightarrow> string \<Rightarrow> Server \<times> Msg" where
  "handleBlockedDomain s env r m domain clientIP =
     (let s1 = s\<lparr>stats := (stats s)\<lparr>BlockedQueries := BlockedQueries (stats s) + 1\<rparr>\<rparr>;
          s2 = s1\<lparr>blocked_queries := blocked_queries s1 @ [(domain, clientIP, req_now env)]\<rparr>;
          action = BlockAction (filtering s);
          m1 = (if action = ''nxdomain'' then SetRcode m r RcodeNameError
                else if action = ''redirect'' then
                  (if length (Question r) > 0 \<and> Qtype (Question r ! 0) = TypeA
                   then m\<lparr>Answer := Answer m @ [block_answer r (RedirectIP (filtering s))]\<rparr>
                   else m)
                else if action = ''block_page'' then
                  (if length (Question r) > 0 \<and> Qtype (Question r ! 0) = TypeA
                   then m\<lparr>Answer := Answer m @ [block_answer r ''127.0.0.1'']\<rparr>
                   else m)
                else m)
      in (s2, m1))"

text \<open>
  The handler's result is the new server and the message given to \<open>w.WriteMsg\<close>;
  \<open>None\<close> when the goroutine panicked in \<open>Get\<close> before writing.
\<close>

definition forwardToUpstream ::
  "(16 word \<Rightarrow> string) \<Rightarrow> Server \<Rightarrow> Request \<Rightarrow> Msg \<Rightarrow> Msg \<Rightarrow> string \<Rightarrow> 16 word
     \<Rightarrow> Server \<times> Msg option" where
  "forwardToUpstream TypeToString s env r m domain qtype =
     (case Get (upstreamPool s) of
        (None, p') \<Rightarrow> (s\<lparr>upstreamPool := p'\<rparr>, None)
      | (Some upstream, p') \<Rightarrow>
          (let s1 = s\<lparr>upstreamPool := p'\<rparr> in
           case req_Exchange env r upstream of
             Inl err \<Rightarrow> (s1, Some (SetRcode m r RcodeServerFailure))
           | Inr resp \<Rightarrow>
               (if Rcode resp = RcodeSuccess \<and> length (Answer resp) > 0
                then s1\<lparr>cache := cache_Set TypeToString (cache s1) (req_now_Set env) domain qtype resp\<rparr>
                else s1,
                Some resp)))"

definition handleDNSRequest ::
  "(16 word \<Rightarrow> string) \<Rightarrow> Server \<Rightarrow> Request \<Rightarrow> Msg \<Rightarrow> Server \<times> Msg option" where
  "handleDNSRequest TypeToString s env r =
     (let s1 = s\<lparr>stats := (stats s)\<lparr>TotalQueries := TotalQueries (stats s) + 1\<rparr>\<rparr>;
          m = (SetReply new_Msg r)\<lparr>Authoritative := True\<rparr>;
          clientIP = req_clientIP env
      in if length (Question r) = 0 then (s1, Some m)
         else (let question = Question r ! 0;
                   domain = Name question
               in case cache_Get TypeToString (cache s1) (req_now env) domain (Qtype question) of
                    Some cachedResponse \<Rightarrow>
                      (s1\<lparr>stats := (stats s1)\<lparr>CachedResponses := CachedResponses (stats s1) + 1\<rparr>\<rparr>,
                       Some (SetReply cachedResponse r))
                  | None \<Rightarrow>
                      if filt_Enabled (filtering s1)
                         \<and> ShouldBlock (Schedule (filtering s1)) (req_wall env)
                              (filter_engine s1) domain clientIP
                      then (case handleBlockedDomain s1 env r m domain clientIP of
                              (s2, m2) \<Rightarrow> (s2, Some m2))
                      else forwardToUpstream TypeToString s1 env r m domain (Qtype question)))"

text \<open>
  What happens to a server over time: queries are handled, the admin plane clears the
  cache, the cleanup goroutine ticks.
\<close>

datatype event = Query Request Msg | ClearCache | Cleanup int

fun step :: "(16 word \<Rightarrow> string) \<Rightarrow> Server \<Rightarrow> event \<Rightarrow> Server" where
  "step TypeToString s (Query env r) = fst (handleDNSRequest TypeToString s env r)"
| "step TypeToString s ClearCache = s\<lparr>cache := cache_Clear (cache s)\<rparr>"
| "step TypeToString s (Cleanup now) = s\<lparr>cache := cleanup_tick (cache s) now\<rparr>"

fun run :: "(16 word \<Rightarrow> string) \<Rightarrow> Server \<Rightarrow> event list \<Rightarrow> Server" where
  "run TypeToString s [] = s"
| "run TypeToString s (ev # evs) = run TypeToString (step TypeToString s ev) evs"

text \<open>
  What the claims call an upstream success among the events \<open>evs\<close>: a message with rcode
  \<open>NOERROR\<close> and at least one answer that some query of \<open>evs\<close> received from an upstream.
\<close>

definition upstream_success :: "event list \<Rightarrow> cacheEntry \<Rightarrow> bool" where
  "upstream_success evs entry =
     (Rcode (response entry) = RcodeSuccess \<and> Answer (response entry) \<noteq> []
      \<and> (\<exists>ev \<in> set evs. case ev of
             Query env r \<Rightarrow> \<exists>upstream. req_Exchange env r upstream = Inr (response entry)
           | _ \<Rightarrow> False))"

section \<open>Concrete configurations on which the model is evaluated\<close>

definition schedule_off :: ScheduleConfig where
  "schedule_off = \<lparr>sched_Enabled = False, Rules = []\<rparr>"

definition monday_noon :: WallClock where
  "monday_noon = \<lparr>weekday = Monday, format_15_04 = ''12:00''\<rparr>"

definition engine_dot_added :: Engine where
  "engine_dot_added = AddToCustomBlocklist empty_Engine ''.''"

definition engine_doubleclick :: Engine where
  "engine_doubleclick = \<lparr>blockedDomains = {''doubleclick.net''}, customBlocked = {}, whitelist = {}\<rparr>"

definition engine_scenario4 :: Engine where
  "engine_scenario4 =
     \<lparr>blockedDomains = {''example.com''}, customBlocked = {}, whitelist = {''*.example.com''}\<rparr>"

definition school_hours :: ScheduleRule where
  "school_hours = \<lparr>Days = [''monday'', ''tuesday'', ''wednesday'', ''thursday'', ''friday''],
                    StartTime = ''08:00'', EndTime = ''15:00'', StrictMode = False\<rparr>"

definition weekend_lock :: ScheduleRule where
  "weekend_lock = \<lparr>Days = [''saturday''], StartTime = ''00:00'', EndTime = ''23:59'',
                    StrictMode = True\<rparr>"

definition schedule_two_rules :: ScheduleConfig where
  "schedule_two_rules = \<lparr>sched_Enabled = True, Rules = [school_hours, weekend_lock]\<rparr>"

definition saturday_noon :: WallClock where
  "saturday_noon = \<lparr>weekday = Saturday, format_15_04 = ''12:00''\<rparr>"

definition pool_before_wrap :: UpstreamPool where
  "pool_before_wrap = \<lparr>servers = [''8.8.8.8:53'', ''1.1.1.1:53'', ''9.9.9.9:53''], index = 4294967294\<rparr>"

definition three_server_pool :: UpstreamPool where
  "three_server_pool = NewUpstreamPool [''8.8.8.8:53'', ''1.1.1.1:53'', ''9.9.9.9:53'']"

definition TypeToString_sample :: "16 word \<Rightarrow> string" where
  "TypeToString_sample t =
     (if t = 1 then ''A'' else if t = 5 then ''CNAME'' else if t = 15 then ''MX''
      else if t = 16 then ''TXT'' else if t = 28 then ''AAAA'' else [])"

definition filtering_on :: FilteringConfig where
  "filtering_on = \<lparr>filt_Enabled = True, BlockAction = ''nxdomain'', RedirectIP = ''0.0.0.0'',
                    Schedule = schedule_off\<rparr>"

definition engine_ads :: Engine where
  "engine_ads = \<lparr>blockedDomains = {''ads.example''}, customBlocked = {}, whitelist = {}\<rparr>"

definition fresh_server :: Server where
  "fresh_server = NewServer filtering_on [''8.8.8.8:53'', ''1.1.1.1:53''] 10000 3600 engine_ads"

definition query_of :: "16 word \<Rightarrow> string \<Rightarrow> 16 word \<Rightarrow> Msg" where
  "query_of ident name qtype =
     new_Msg\<lparr>Id := ident, RecursionDesired := True,
             Question := [\<lparr>Name = name, Qtype = qtype, Qclass = 1\<rparr>]\<rparr>"

definition no_question :: Msg where
  "no_question = new_Msg\<lparr>Id := 4660\<rparr>"

definition upstream_answer :: "Msg \<Rightarrow> Msg" where
  "upstream_answer r =
     (SetReply new_Msg r)\<lparr>Answer := [\<lparr>rr_Name = Name (Question r ! 0), Rrtype = 1, Class = 1,
                                      Ttl = 60, Rdata = ''93.184.216.34''\<rparr>]\<rparr>"

definition request_up :: Request where
  "request_up = \<lparr>req_clientIP = ''192.168.1.10'', req_now = 1000, req_now_Set = 1005,
                  req_wall = monday_noon,
                  req_Exchange = (\<lambda>r upstream. Inr (upstream_answer r))\<rparr>"

definition request_down :: Request where
  "request_down = \<lparr>req_clientIP = ''192.168.1.10'', req_now = 2000, req_now_Set = 2005,
                    req_wall = monday_noon,
                    req_Exchange = (\<lambda>r upstream. Inl Timeout)\<rparr>"

definition three_queries :: "event list" where
  "three_queries =
     [Query request_up (query_of 1 ''example.com.'' 1),
      Query request_up (query_of 2 ''ads.example.'' 1),
      Query request_down (query_of 3 ''other.example.'' 1)]"


definition custom_file :: CustomBlocklist where
  "custom_file =
     \<lparr>Version = ''1.0'', LastUpdated = ''2026-02-21'',
      Domains = [\<lparr>Domain = ''old.example'', entry_Category = ''custom'',
                  Note = ''Blocked via CLI'', entry_Enabled = False\<rparr>,
                 \<lparr>Domain = ''New.Example.'', entry_Category = ''custom'',
                  Note = ''Blocked via CLI'', entry_Enabled = True\<rparr>]\<rparr>"

definition blocklists_cfg :: BlocklistsConfig where
  "blocklists_cfg =
     \<lparr>Sources = [\<lparr>src_Name = ''ads'', URL = ''https://lists.example/hosts.txt'',
                   src_Category = ''ads'', src_Enabled = True\<rparr>,
                  \<lparr>src_Name = ''malware'', URL = ''https://lists.example/down.txt'',
                   src_Category = ''malware'', src_Enabled = True\<rparr>],
      CustomPath = ''./configs/custom*.yaml''\<rparr>"

definition world_one_source_up :: World where
  "world_one_source_up =
     \<lparr>httpGet = (\<lambda>url. if url = ''https://lists.example/hosts.txt''
                         then Inr (200, [''# ad servers'', ''0.0.0.0 ads.example'',
                                         ''||tracker.example^'', ''new.example''], None)
                         else Inl (TransportError ''no route to host'')),
      openFile = (\<lambda>path. Inl (OpenError ''no such file'')),
      Glob = (\<lambda>pattern. ([''./configs/custom-blocklist.yaml''], None)),
      ReadFile = (\<lambda>path. Inr ''domains: ...''),
      yaml_Unmarshal = (\<lambda>data. Inr custom_file)\<rparr>"

definition world_all_down :: World where
  "world_all_down =
     \<lparr>httpGet = (\<lambda>url. Inl (TransportError ''no route to host'')),
      openFile = (\<lambda>path. Inl (OpenError ''no such file'')),
      Glob = (\<lambda>pattern. ([], None)),
      ReadFile = (\<lambda>path. Inl (ReadError ''no such file'')),
      yaml_Unmarshal = (\<lambda>data. Inl (YAMLError ''empty''))\<rparr>"

definition engine_old_custom :: Engine where
  "engine_old_custom = \<lparr>blockedDomains = {}, customBlocked = {''old.example''}, whitelist = {}\<rparr>"

definition engine_new_custom :: Engine where
  "engine_new_custom = \<lparr>blockedDomains = {}, customBlocked = {''new.example''}, whitelist = {}\<rparr>"

definition cached_example :: cacheEntry where
  "cached_example = \<lparr>response = upstream_answer (query_of 1 ''example.com.'' 1), timestamp = 1005\<rparr>"



section \<open>The block decision\<close>

subsection \<open>Splitting and joining labels\<close>

lemma Split_not_Nil: "Split s c \<noteq> []"
  by (induction s) (auto split: list.splits)

lemma Join_Cons_nonempty: "ps \<noteq> [] \<Longrightarrow> Join (p # ps) sep = p @ sep @ Join ps sep"
  by (cases ps) auto

lemma Join_Split: "Join (Split s c) [c] = s"
proof (induction s)
  case Nil
  show ?case by simp
next
  case (Cons a s)
  obtain p ps where sp: "Split s c = p # ps"
    using Split_not_Nil [of s c] by (cases "Split s c") auto
  show ?case
  proof (cases "a = c")
    case True
    then show ?thesis using Cons Split_not_Nil [of s c]
      by (simp add: Join_Cons_nonempty)
  next
    case False
    then show ?thesis using Cons sp
      by (cases ps) auto
  qed
qed

subsection \<open>The parent loop and the suffix match\<close>

lemma parent_loop_iff:
  "parent_loop e parts i =
     (\<exists>j. i \<le> j \<and> j < length parts \<and>
          (Join (drop j parts) ''.'' \<in> blockedDomains e \<or> Join (drop j parts) ''.'' \<in> customBlocked e))"
proof (induction e parts i rule: parent_loop.induct)
  case (1 e parts i)
  show ?case
  proof (cases "i < length parts")
    case False
    then show ?thesis by (subst parent_loop.simps) auto
  next
    case True
    show ?thesis
    proof (cases "Join (drop i parts) ''.'' \<in> blockedDomains e \<or> Join (drop i parts) ''.'' \<in> customBlocked e")
      case hit: True
      then show ?thesis using True by (subst parent_loop.simps) (auto simp: Let_def)
    next
      case miss: False
      have "parent_loop e parts i = parent_loop e parts (i + 1)"
        using True miss by (subst parent_loop.simps) (simp add: Let_def)
      also have "\<dots> = (\<exists>j. i + 1 \<le> j \<and> j < length parts \<and>
          (Join (drop j parts) ''.'' \<in> blockedDomains e \<or> Join (drop j parts) ''.'' \<in> customBlocked e))"
        using "1.IH" [OF True refl] miss by simp
      also have "\<dots> = (\<exists>j. i \<le> j \<and> j < length parts \<and>
          (Join (drop j parts) ''.'' \<in> blockedDomains e \<or> Join (drop j parts) ''.'' \<in> customBlocked e))"
        using miss by (metis Suc_eq_plus1 Suc_leI le_neq_implies_less Suc_leD)
      finally show ?thesis .
    qed
  qed
qed

lemma spec_suffix_match_iff:
  "spec_suffix_match e d =
     (d \<in> customBlocked e \<or> d \<in> blockedDomains e \<or> parent_loop e (Split d CHR ''.'') 1)"
proof -
  let ?parts = "Split d CHR ''.''"
  let ?P = "\<lambda>j. Join (drop j ?parts) ''.'' \<in> blockedDomains e \<or> Join (drop j ?parts) ''.'' \<in> customBlocked e"
  have len: "0 < length ?parts" using Split_not_Nil [of d] by simp
  have J0: "Join (drop 0 ?parts) ''.'' = d" using Join_Split [of d "CHR ''.''"] by simp
  have "spec_suffix_match e d = (\<exists>j < length ?parts. ?P j)"
    by (auto simp: spec_suffix_match_def label_suffixes_def Let_def)
  also have "\<dots> = (?P 0 \<or> (\<exists>j. 1 \<le> j \<and> j < length ?parts \<and> ?P j))"
    using len by (metis One_nat_def Suc_leI not_gr_zero)
  also have "\<dots> = (d \<in> customBlocked e \<or> d \<in> blockedDomains e \<or> parent_loop e ?parts 1)"
    unfolding parent_loop_iff [of e ?parts 1] J0 by blast
  finally show ?thesis .
qed

lemma normalizeDomain_Nil: "normalizeDomain [] = []"
  by (simp add: normalizeDomain_def TrimSpace_def ToLower_def TrimSuffix_def HasSuffix_def)

subsection \<open>Schedule disabled\<close>

text \<open>
  C1, as stated, at the engine reached from the empty one by \<open>AddToCustomBlocklist(".")\<close>:
  the custom set then holds the empty name, the empty name is not whitelisted and it is
  its own only label suffix, so the stated equivalence asks for a block, while
  \<open>ShouldBlock\<close> answers false for the empty name.
\<close>

theorem ShouldBlock_suffix_iff_counterexample:
  "\<not> (ShouldBlock schedule_off monday_noon engine_dot_added '''' ''192.168.1.10'' =
        (\<not> isWhitelisted engine_dot_added (normalizeDomain '''')
         \<and> spec_suffix_match engine_dot_added (normalizeDomain '''')))"
  by code_simp

text \<open>
  C1 (amended): with the schedule disabled, \<open>ShouldBlock(N, client)\<close> is true if and only
  if the normalized name is not empty, is not whitelisted, and some suffix of its label
  list, joined by dots, is in the custom set or the remote set; \<open>ShouldBlock\<close> of the
  empty string is false.
\<close>

theorem ShouldBlock_schedule_disabled:
  "\<not> sched_Enabled sched \<Longrightarrow>
     (ShouldBlock sched now e N clientIP =
        (normalizeDomain N \<noteq> [] \<and> \<not> isWhitelisted e (normalizeDomain N)
         \<and> spec_suffix_match e (normalizeDomain N)))
     \<and> \<not> ShouldBlock sched now e '''' clientIP"
  by (simp add: ShouldBlock_def Let_def spec_suffix_match_iff normalizeDomain_Nil)

text \<open>
  The theorem at a remote set that holds \<open>doubleclick.net\<close>: a name below it is blocked,
  an unrelated name is not.
\<close>

theorem ShouldBlock_schedule_disabled_witness:
  "\<not> sched_Enabled schedule_off
   \<and> ShouldBlock schedule_off monday_noon engine_doubleclick ''Tracker.Ads.DoubleClick.NET.'' ''192.168.1.10''
   \<and> \<not> ShouldBlock schedule_off monday_noon engine_doubleclick ''www.example.org.'' ''192.168.1.10''"
proof -
  have off: "\<not> sched_Enabled schedule_off"
    by (simp add: schedule_off_def)
  have hit: "normalizeDomain ''Tracker.Ads.DoubleClick.NET.'' \<noteq> []
      \<and> \<not> isWhitelisted engine_doubleclick (normalizeDomain ''Tracker.Ads.DoubleClick.NET.'')
      \<and> spec_suffix_match engine_doubleclick (normalizeDomain ''Tracker.Ads.DoubleClick.NET.'')"
    by code_simp
  have miss: "\<not> spec_suffix_match engine_doubleclick (normalizeDomain ''www.example.org.'')"
    by code_simp
  show ?thesis
    using off hit miss
      ShouldBlock_schedule_disabled [OF off, of monday_noon engine_doubleclick
        "''Tracker.Ads.DoubleClick.NET.''" "''192.168.1.10''"]
      ShouldBlock_schedule_disabled [OF off, of monday_noon engine_doubleclick
        "''www.example.org.''" "''192.168.1.10''"]
    by blast
qed

subsection \<open>A wildcard whitelist entry and the apex name\<close>

text \<open>
  C2, as stated: blocked set \<open>{example.com}\<close>, whitelist \<open>{*.example.com}\<close>, schedule
  disabled. The claim expects \<open>www.example.com\<close> not blocked and \<open>example.com\<close> blocked.
\<close>

theorem scenario4_apex_blocked_counterexample:
  "\<not> (ShouldBlock schedule_off monday_noon engine_scenario4 ''www.example.com'' ''192.168.1.10'' = False
      \<and> ShouldBlock schedule_off monday_noon engine_scenario4 ''example.com'' ''192.168.1.10'' = True)"
  by code_simp

text \<open>
  C2 (amended): in that configuration neither \<open>www.example.com\<close> nor \<open>example.com\<close> is
  blocked. \<open>example.com\<close> is not a literal whitelist entry, but \<open>isWhitelisted\<close> strips
  \<open>"*."\<close> from the pattern and tests whether the rest, \<open>example.com\<close>, is a string suffix
  of the name, which holds for the name \<open>example.com\<close> itself.
\<close>

theorem scenario4_wildcard_covers_apex:
  "ShouldBlock schedule_off monday_noon engine_scenario4 ''www.example.com'' ''192.168.1.10'' = False
   \<and> ShouldBlock schedule_off monday_noon engine_scenario4 ''example.com'' ''192.168.1.10'' = False
   \<and> ''example.com'' \<notin> whitelist engine_scenario4
   \<and> HasSuffix ''example.com'' (TrimPrefix ''*.example.com'' ''*.'')
   \<and> isWhitelisted engine_scenario4 ''example.com''"
  by code_simp

subsection \<open>Schedule enabled\<close>

lemma dayMatch_iff: "dayMatch days cd = (cd \<in> set (map ToLower days))"
  by (induction days) auto

lemma allowed_by_rules_iff:
  "allowed_by_rules rules cd ct =
     (\<forall>rule \<in> set rules. \<not> (cd \<in> set (map ToLower (Days rule)) \<and> StartTime rule \<le> ct \<and> ct \<le> EndTime rule))"
  by (induction rules) (auto simp: dayMatch_iff)

lemma isInAllowedTime_iff:
  "isInAllowedTime sched now = (\<forall>rule \<in> set (Rules sched). \<not> spec_rule_matches rule now)"
  by (auto simp: isInAllowedTime_def allowed_by_rules_iff spec_rule_matches_def)

lemma ShouldBlock_in_window:
  assumes "sched_Enabled sched" "rule \<in> set (Rules sched)" "spec_rule_matches rule now"
    and "normalizeDomain N \<noteq> []" "\<not> isWhitelisted e (normalizeDomain N)"
  shows "ShouldBlock sched now e N clientIP =
           (StrictMode (Rules sched ! 0) \<or> spec_suffix_match e (normalizeDomain N))"
proof -
  have "\<not> isInAllowedTime sched now" using assms(2,3) by (auto simp: isInAllowedTime_iff)
  moreover have "length (Rules sched) > 0" using assms(2) by (cases "Rules sched") auto
  ultimately show ?thesis using assms(1,4,5)
    by (auto simp: ShouldBlock_def Let_def spec_suffix_match_iff)
qed

text \<open>
  C3 at a schedule of two rules, on a Saturday at noon: the first rule (school hours,
  not strict) does not match, the second (Saturday, strict) does. The claim asks that
  every non-empty name that is not whitelisted be blocked, as the matching rule is strict;
  \<open>ShouldBlock\<close> reads \<open>StrictMode\<close> of \<open>Rules[0]\<close> and does not block.
\<close>

theorem strict_mode_of_first_rule_example:
  "sched_Enabled schedule_two_rules
   \<and> Rules schedule_two_rules = [school_hours, weekend_lock]
   \<and> \<not> spec_rule_matches school_hours saturday_noon
   \<and> spec_rule_matches weekend_lock saturday_noon
   \<and> StrictMode weekend_lock
   \<and> normalizeDomain ''example.org'' \<noteq> []
   \<and> \<not> isWhitelisted empty_Engine (normalizeDomain ''example.org'')
   \<and> \<not> ShouldBlock schedule_two_rules saturday_noon empty_Engine ''example.org'' ''192.168.1.10''"
  by code_simp

section \<open>Ingestion\<close>

subsection \<open>What the loops compute\<close>

lemma entries_loop_eq:
  "entries_loop es (A, n) = (A \<union> set (loaded_domains es), n + length (loaded_domains es))"
  by (induction es arbitrary: A n) (auto simp: loaded_domains_def Let_def)

lemma loaded_domains_append: "loaded_domains (xs @ ys) = loaded_domains xs @ loaded_domains ys"
  by (simp add: loaded_domains_def)

lemma loaded_domains_Nil: "loaded_domains [] = []"
  by (simp add: loaded_domains_def)

lemma files_loop_step:
  "files_loop w (path # files) (A, n) =
     files_loop w files
       (A \<union> set (loaded_domains (concat (map Domains (parsed_file w path)))),
        n + length (loaded_domains (concat (map Domains (parsed_file w path)))))"
  by (simp add: parsed_file_def entries_loop_eq loaded_domains_Nil split: sum.splits)

lemma files_loop_eq:
  "files_loop w files (A, n) =
     (A \<union> set (loaded_domains (concat (map Domains (concat (map (parsed_file w) files))))),
      n + length (loaded_domains (concat (map Domains (concat (map (parsed_file w) files))))))"
proof (induction files arbitrary: A n)
  case Nil
  show ?case by (simp add: loaded_domains_Nil)
next
  case (Cons path files)
  show ?case
    by (simp only: files_loop_step Cons) (auto simp: loaded_domains_append)
qed

lemma loadCustomYAMLBlocklists_eq:
  "loadCustomYAMLBlocklists cfg w =
     (set (loaded_domains (concat (map Domains (matched_blocklists cfg w)))),
      length (loaded_domains (concat (map Domains (matched_blocklists cfg w)))))"
  by (cases "Glob w (CustomPath cfg)")
     (auto simp: loadCustomYAMLBlocklists_def matched_blocklists_def files_loop_eq loaded_domains_Nil)

lemma set_loaded_domains:
  "set (loaded_domains (concat (map Domains (matched_blocklists cfg w)))) = spec_custom_domains cfg w - {[]}"
  by (auto simp: loaded_domains_def spec_custom_domains_def enabled_entries_def)

lemma sources_loop_eq:
  "fst (sources_loop w srcs (A, n)) =
     A \<union> set (concat (map (\<lambda>source. fst (fetchBlocklist w (URL source))) (filter (fetched_ok w) srcs)))"
proof (induction srcs arbitrary: A n)
  case Nil
  show ?case by simp
next
  case (Cons source srcs)
  obtain domains err where f: "fetchBlocklist w (URL source) = (domains, err)"
    by (cases "fetchBlocklist w (URL source)")
  show ?case
    using Cons f
    by (cases err) (auto simp: fetched_ok_def union_set_fold [symmetric])
qed

lemma UpdateBlocklists_blocked:
  "blockedDomains (fst (UpdateBlocklists cfg w e))
     = enabled_source_outputs cfg w \<union> fst (loadCustomYAMLBlocklists cfg w)"
proof -
  obtain fetched total where s: "sources_loop w (Sources cfg) ({}, 0) = (fetched, total)"
    by (cases "sources_loop w (Sources cfg) ({}, 0)")
  have "fetched = enabled_source_outputs cfg w"
    using sources_loop_eq [of w "Sources cfg" "{}" 0] s by (simp add: enabled_source_outputs_def)
  then show ?thesis
    using s by (simp add: UpdateBlocklists_def Let_def split: prod.splits)
qed

lemma UpdateBlocklists_custom:
  "customBlocked (fst (UpdateBlocklists cfg w e)) = customBlocked e"
  by (simp add: UpdateBlocklists_def Let_def split: prod.splits)

lemma finite_loaded: "finite (fst (loadCustomYAMLBlocklists cfg w))"
  by (simp add: loadCustomYAMLBlocklists_eq)

subsection \<open>Reloading the custom blocklists\<close>

text \<open>
  C5, as stated, at a custom set that holds \<open>old.example\<close> and a matched file in which
  \<open>old.example\<close> is disabled and \<open>New.Example.\<close> is enabled: the claim expects the custom
  set to become exactly the enabled entries of the file.
\<close>

theorem ReloadCustom_rebuilds_counterexample:
  "\<not> (customBlocked (fst (ReloadCustomBlocklists blocklists_cfg world_one_source_up engine_old_custom))
        = spec_custom_domains blocklists_cfg world_one_source_up)"
  by code_simp

text \<open>
  C5 (amended): after \<open>ReloadCustomBlocklists\<close> the custom set is the old custom set
  together with the non-empty normalized domains of the enabled entries of the matched,
  readable files (nothing is removed); the remote set and the whitelist are not modified;
  the returned count is the number of enabled entries with a non-empty normalized domain,
  and the returned error is nil.
\<close>

theorem ReloadCustom_merges:
  "customBlocked (fst (ReloadCustomBlocklists cfg w e))
     = customBlocked e \<union> (spec_custom_domains cfg w - {[]})
   \<and> blockedDomains (fst (ReloadCustomBlocklists cfg w e)) = blockedDomains e
   \<and> whitelist (fst (ReloadCustomBlocklists cfg w e)) = whitelist e
   \<and> fst (snd (ReloadCustomBlocklists cfg w e))
       = length (loaded_domains (concat (map Domains (matched_blocklists cfg w))))
   \<and> snd (snd (ReloadCustomBlocklists cfg w e)) = None"
  by (simp add: ReloadCustomBlocklists_def loadCustomYAMLBlocklists_eq set_loaded_domains)

text \<open>The theorem at the same configuration: both names are in the custom set, one entry was loaded.\<close>

theorem ReloadCustom_merges_witness:
  "customBlocked (fst (ReloadCustomBlocklists blocklists_cfg world_one_source_up engine_old_custom))
     = {''old.example'', ''new.example''}
   \<and> fst (snd (ReloadCustomBlocklists blocklists_cfg world_one_source_up engine_old_custom)) = 1"
proof -
  have a: "customBlocked engine_old_custom \<union> (spec_custom_domains blocklists_cfg world_one_source_up - {[]})
      = {''old.example'', ''new.example''}"
    by code_simp
  have b: "length (loaded_domains (concat (map Domains (matched_blocklists blocklists_cfg world_one_source_up)))) = 1"
    by code_simp
  show ?thesis
    using ReloadCustom_merges [of blocklists_cfg world_one_source_up engine_old_custom]
    unfolding a b by simp
qed

subsection \<open>The blocked-domain count after an update\<close>

text \<open>
  C6, as stated, at a custom set that holds \<open>new.example\<close>, one source that yields
  \<open>ads.example\<close>, \<open>tracker.example\<close> and \<open>new.example\<close>, and a custom file with
  \<open>new.example\<close> enabled: the de-duplicated union has three domains.
\<close>

theorem blocked_count_counterexample:
  "\<not> (GetBlockedCount (fst (UpdateBlocklists blocklists_cfg world_one_source_up engine_new_custom))
        = card (enabled_source_outputs blocklists_cfg world_one_source_up
                \<union> fst (loadCustomYAMLBlocklists blocklists_cfg world_one_source_up)
                \<union> customBlocked engine_new_custom))"
  by code_simp

text \<open>
  C6 (amended): after \<open>UpdateBlocklists\<close> the remote set is the de-duplicated union of
  the parsed outputs of the enabled sources fetched without error and of the loaded
  custom entries, the custom set is unchanged, and \<open>GetBlockedCount\<close> is the size of the
  remote set plus the size of the custom set: a domain in several sources is counted once,
  a domain in both the remote and the custom set is counted twice. When the custom set
  is disjoint from the new remote set the count is the size of their union.
\<close>

theorem blocked_count_is_sum_of_two_sets:
  "blockedDomains (fst (UpdateBlocklists cfg w e))
     = enabled_source_outputs cfg w \<union> fst (loadCustomYAMLBlocklists cfg w)
   \<and> customBlocked (fst (UpdateBlocklists cfg w e)) = customBlocked e
   \<and> GetBlockedCount (fst (UpdateBlocklists cfg w e))
       = card (enabled_source_outputs cfg w \<union> fst (loadCustomYAMLBlocklists cfg w))
         + card (customBlocked e)
   \<and> (finite (customBlocked e)
        \<and> customBlocked e \<inter> (enabled_source_outputs cfg w \<union> fst (loadCustomYAMLBlocklists cfg w)) = {}
      \<longrightarrow> GetBlockedCount (fst (UpdateBlocklists cfg w e))
          = card (enabled_source_outputs cfg w \<union> fst (loadCustomYAMLBlocklists cfg w)
                  \<union> customBlocked e))"
proof -
  let ?R = "enabled_source_outputs cfg w \<union> fst (loadCustomYAMLBlocklists cfg w)"
  have fin: "finite ?R"
    by (simp add: finite_loaded enabled_source_outputs_def)
  have cnt: "GetBlockedCount (fst (UpdateBlocklists cfg w e)) = card ?R + card (customBlocked e)"
    by (simp add: GetBlockedCount_def UpdateBlocklists_blocked UpdateBlocklists_custom)
  have "finite (customBlocked e) \<Longrightarrow> customBlocked e \<inter> ?R = {} \<Longrightarrow>
      card (?R \<union> customBlocked e) = card ?R + card (customBlocked e)"
    using fin by (simp add: card_Un_disjoint Int_commute)
  then show ?thesis
    using cnt by (simp add: UpdateBlocklists_blocked UpdateBlocklists_custom)
qed

text \<open>
  The theorem at the configuration above (count four for three distinct domains), and
  at a custom set disjoint from the new remote set.
\<close>

theorem blocked_count_is_sum_of_two_sets_witness:
  "GetBlockedCount (fst (UpdateBlocklists blocklists_cfg world_one_source_up engine_new_custom)) = 4
   \<and> blockedDomains (fst (UpdateBlocklists blocklists_cfg world_one_source_up engine_new_custom))
       = {''ads.example'', ''tracker.example'', ''new.example''}
   \<and> finite (customBlocked engine_old_custom)
   \<and> customBlocked engine_old_custom
        \<inter> (enabled_source_outputs blocklists_cfg world_one_source_up
            \<union> fst (loadCustomYAMLBlocklists blocklists_cfg world_one_source_up)) = {}
   \<and> GetBlockedCount (fst (UpdateBlocklists blocklists_cfg world_one_source_up engine_old_custom))
       = card (enabled_source_outputs blocklists_cfg world_one_source_up
               \<union> fst (loadCustomYAMLBlocklists blocklists_cfg world_one_source_up)
               \<union> customBlocked engine_old_custom)"
proof -
  have a: "enabled_source_outputs blocklists_cfg world_one_source_up
             \<union> fst (loadCustomYAMLBlocklists blocklists_cfg world_one_source_up)
           = {''ads.example'', ''tracker.example'', ''new.example''}"
    by code_simp
  have b: "card {''ads.example'', ''tracker.example'', ''new.example''} + card (customBlocked engine_new_custom) = 4"
    by code_simp
  have f: "finite (customBlocked engine_old_custom)"
    by (simp add: engine_old_custom_def)
  have d: "customBlocked engine_old_custom \<inter> {''ads.example'', ''tracker.example'', ''new.example''} = {}"
    by code_simp
  show ?thesis
    using f d
      blocked_count_is_sum_of_two_sets [of blocklists_cfg world_one_source_up engine_new_custom]
      blocked_count_is_sum_of_two_sets [of blocklists_cfg world_one_source_up engine_old_custom]
    unfolding a b by simp
qed

subsection \<open>The result of an update\<close>

text \<open>
  C8, as stated, when every source fails and no custom file is found: the claim expects
  \<open>UpdateBlocklists\<close> to report a failure.
\<close>

theorem UpdateBlocklists_no_data_counterexample:
  "\<not> (enabled_source_outputs blocklists_cfg world_all_down = {}
        \<and> fst (loadCustomYAMLBlocklists blocklists_cfg world_all_down) = {}
      \<longrightarrow> snd (snd (UpdateBlocklists blocklists_cfg world_all_down engine_old_custom)) \<noteq> None)"
  by code_simp

text \<open>
  C8 (amended): \<open>UpdateBlocklists\<close> returns nil in every case, also when no source and
  no custom file produces data. A failing source is skipped and the others are still
  ingested: the new remote set, which is also the set handed to \<open>db.SaveBlocklist\<close>, is
  exactly the union of the outputs of the enabled sources whose fetch returned no error
  and of the loaded custom entries, whatever the remote set was before; so it is empty
  when nothing produced data.
\<close>

theorem UpdateBlocklists_always_succeeds:
  "snd (snd (UpdateBlocklists cfg w e)) = None
   \<and> blockedDomains (fst (UpdateBlocklists cfg w e))
       = enabled_source_outputs cfg w \<union> fst (loadCustomYAMLBlocklists cfg w)
   \<and> fst (snd (UpdateBlocklists cfg w e)) = blockedDomains (fst (UpdateBlocklists cfg w e))
   \<and> (\<forall>source \<in> set (Sources cfg).
         src_Enabled source \<and> snd (fetchBlocklist w (URL source)) = None
         \<longrightarrow> set (fst (fetchBlocklist w (URL source))) \<subseteq> blockedDomains (fst (UpdateBlocklists cfg w e)))
   \<and> fst (loadCustomYAMLBlocklists cfg w) \<subseteq> blockedDomains (fst (UpdateBlocklists cfg w e))
   \<and> (enabled_source_outputs cfg w = {} \<and> fst (loadCustomYAMLBlocklists cfg w) = {}
      \<longrightarrow> blockedDomains (fst (UpdateBlocklists cfg w e)) = {})"
proof -
  have nil: "snd (snd (UpdateBlocklists cfg w e)) = None"
    by (simp add: UpdateBlocklists_def Let_def split: prod.splits)
  have saved: "fst (snd (UpdateBlocklists cfg w e)) = blockedDomains (fst (UpdateBlocklists cfg w e))"
    by (simp add: UpdateBlocklists_def Let_def split: prod.splits)
  have sub: "set (fst (fetchBlocklist w (URL source))) \<subseteq> enabled_source_outputs cfg w"
    if "source \<in> set (Sources cfg)" "src_Enabled source" "snd (fetchBlocklist w (URL source)) = None"
    for source
    using that by (auto simp: enabled_source_outputs_def fetched_ok_def)
  show ?thesis
    using nil saved sub by (auto simp: UpdateBlocklists_blocked)
qed

text \<open>
  The theorem from a remote set that holds \<open>ads.example\<close>: with one source up and one
  down the update returns nil and the new remote set is the three domains of the first
  source; with everything down it returns nil and the new remote set is empty.
\<close>

theorem UpdateBlocklists_always_succeeds_witness:
  "snd (snd (UpdateBlocklists blocklists_cfg world_one_source_up engine_ads)) = None
   \<and> snd (fetchBlocklist world_one_source_up ''https://lists.example/down.txt'')
       = Some (TransportError ''no route to host'')
   \<and> blockedDomains (fst (UpdateBlocklists blocklists_cfg world_one_source_up engine_ads))
       = {''ads.example'', ''tracker.example'', ''new.example''}
   \<and> snd (snd (UpdateBlocklists blocklists_cfg world_all_down engine_ads)) = None
   \<and> blockedDomains engine_ads = {''ads.example''}
   \<and> blockedDomains (fst (UpdateBlocklists blocklists_cfg world_all_down engine_ads)) = {}"
proof -
  have up: "enabled_source_outputs blocklists_cfg world_one_source_up
              \<union> fst (loadCustomYAMLBlocklists blocklists_cfg world_one_source_up)
            = {''ads.example'', ''tracker.example'', ''new.example''}"
    by code_simp
  have none: "enabled_source_outputs blocklists_cfg world_all_down = {}
              \<and> fst (loadCustomYAMLBlocklists blocklists_cfg world_all_down) = {}"
    by code_simp
  have down: "snd (fetchBlocklist world_one_source_up ''https://lists.example/down.txt'')
       = Some (TransportError ''no route to host'')"
    by code_simp
  have before: "blockedDomains engine_ads = {''ads.example''}"
    by (simp add: engine_ads_def)
  have A: "snd (snd (UpdateBlocklists blocklists_cfg world_one_source_up engine_ads)) = None
      \<and> blockedDomains (fst (UpdateBlocklists blocklists_cfg world_one_source_up engine_ads))
          = {''ads.example'', ''tracker.example'', ''new.example''}"
    using UpdateBlocklists_always_succeeds [of blocklists_cfg world_one_source_up engine_ads]
    unfolding up by blast
  have B: "snd (snd (UpdateBlocklists blocklists_cfg world_all_down engine_ads)) = None
      \<and> blockedDomains (fst (UpdateBlocklists blocklists_cfg world_all_down engine_ads)) = {}"
    using none UpdateBlocklists_always_succeeds [of blocklists_cfg world_all_down engine_ads]
    by blast
  show ?thesis
    using A B down before by blast
qed

section \<open>The upstream pool: round robin\<close>

lemma window_residues:
  assumes "0 < N"
  shows "mset (map (\<lambda>j. (b + j) mod N) [0..<N]) = mset [0..<N]"
proof (induction b)
  case 0
  have "map (\<lambda>j. (0 + j) mod N) [0..<N] = map (\<lambda>j. j) [0..<N]"
    by (rule map_cong) auto
  then show ?case by simp
next
  case (Suc b)
  let ?f = "\<lambda>j. (b + j) mod N"
  have "map (\<lambda>j. (Suc b + j) mod N) [0..<N] = map (\<lambda>j. ?f (Suc j)) [0..<N]"
    by simp
  also have "\<dots> = map ?f [Suc 0..<Suc N]"
    by (simp only: map_Suc_upt [symmetric] map_map o_def)
  also have "\<dots> = map ?f [Suc 0..<N] @ [?f N]"
    using assms by simp
  finally have "mset (map (\<lambda>j. (Suc b + j) mod N) [0..<N]) = mset (map ?f [Suc 0..<N]) + {#?f N#}"
    by simp
  also have "?f N = ?f 0" by simp
  also have "mset (map ?f [Suc 0..<N]) + {#?f 0#} = mset (map ?f [0..<N])"
    using assms by (simp add: upt_rec [of 0 N])
  finally show ?case using Suc by simp
qed

lemma residues_repeat:
  assumes "0 < N"
  shows "mset (map (\<lambda>j. (a + j) mod N) [0..<N * k]) = repeat_mset k (mset [0..<N])"
proof (induction k)
  case 0
  show ?case by simp
next
  case (Suc k)
  have "[0..<N * Suc k] = [0..<N * k] @ [N * k..<N * k + N]"
    by (metis le_add1 mult_Suc_right upt_add_eq_append add.commute zero_le)
  moreover have "[N * k..<N * k + N] = map (\<lambda>j. N * k + j) [0..<N]"
    by (simp add: map_add_upt add.commute)
  ultimately have "map (\<lambda>j. (a + j) mod N) [0..<N * Suc k] =
      map (\<lambda>j. (a + j) mod N) [0..<N * k] @ map (\<lambda>j. ((a + N * k) + j) mod N) [0..<N]"
    by (simp add: o_def add.assoc)
  then show ?case
    using Suc window_residues [OF assms, of "a + N * k"] by simp
qed

lemma image_mset_repeat: "image_mset f (repeat_mset k M) = repeat_mset k (image_mset f M)"
  by (induction k) simp_all

lemma count_image_mset_Some: "count (image_mset Some M) (Some s) = count M s"
  by (induction M) simp_all

lemma count_list_replicate: "count_list (replicate k x) y = (if x = y then k else 0)"
  by (induction k) auto

lemma count_round_robin:
  assumes "0 < length xs"
  shows "count_list (map (\<lambda>j. Some (xs ! ((a + j) mod length xs))) [0..<length xs * k]) (Some s)
           = k * count_list xs s"
proof -
  let ?N = "length xs"
  let ?L = "map (\<lambda>j. Some (xs ! ((a + j) mod ?N))) [0..<?N * k]"
  have "?L = map (\<lambda>i. Some (xs ! i)) (map (\<lambda>j. (a + j) mod ?N) [0..<?N * k])"
    by (simp add: o_def)
  then have "mset ?L = image_mset (\<lambda>i. Some (xs ! i)) (mset (map (\<lambda>j. (a + j) mod ?N) [0..<?N * k]))"
    by (simp only: mset_map)
  also have "\<dots> = image_mset (\<lambda>i. Some (xs ! i)) (repeat_mset k (mset [0..<?N]))"
    by (simp only: residues_repeat [OF assms])
  also have "\<dots> = repeat_mset k (image_mset (\<lambda>i. Some (xs ! i)) (mset [0..<?N]))"
    by (rule image_mset_repeat)
  also have "image_mset (\<lambda>i. Some (xs ! i)) (mset [0..<?N]) = mset (map Some (map (\<lambda>i. xs ! i) [0..<?N]))"
    by (simp only: mset_map multiset.map_comp o_def)
  also have "map (\<lambda>i. xs ! i) [0..<?N] = xs" by (rule map_nth)
  finally have m: "mset ?L = repeat_mset k (mset (map Some xs))" .
  have "count_list ?L (Some s) = count (mset ?L) (Some s)"
    by (simp only: count_mset)
  also have "\<dots> = k * count (mset (map Some xs)) (Some s)"
    by (simp only: m count_repeat_mset)
  also have "count (mset (map Some xs)) (Some s) = count (mset xs) s"
    by (simp only: mset_map count_image_mset_Some)
  also have "count (mset xs) s = count_list xs s"
    by (simp only: count_mset)
  finally show ?thesis .
qed

lemma Get_single:
  "length (servers p) = 1 \<Longrightarrow> Get p = (Some (servers p ! 0), p)"
  by (simp add: Get_def)

lemma Get_round_robin:
  assumes "2 \<le> length (servers p)" "length (servers p) < 2 ^ 32"
  shows "Get p = (Some (servers p ! (unat (index p + 1) mod length (servers p))),
                  p\<lparr>index := index p + 1\<rparr>)"
proof -
  let ?N = "length (servers p)"
  have u: "unat (word_of_nat ?N :: 32 word) = ?N"
    using assms(2) by (simp add: unat_of_nat)
  then have nz: "(word_of_nat ?N :: 32 word) \<noteq> 0"
    using assms(1) by (metis unat_0 not_numeral_le_zero)
  have "unat ((index p + 1) mod (word_of_nat ?N :: 32 word)) = unat (index p + 1) mod ?N"
    by (simp add: unat_mod u)
  then show ?thesis using assms(1) nz by (auto simp: Get_def Let_def)
qed

lemma Get_calls_single:
  "length (servers p) = 1 \<Longrightarrow> Get_calls n p = replicate n (Some (servers p ! 0))"
  by (induction n) (simp_all add: Get_single)

lemma Get_calls_round_robin:
  assumes "2 \<le> length (servers p)" "length (servers p) < 2 ^ 32"
  shows "Get_calls n p =
           map (\<lambda>j. Some (servers p ! (unat (index p + word_of_nat (Suc j)) mod length (servers p))))
               [0..<n]"
  using assms
proof (induction n arbitrary: p)
  case 0
  show ?case by simp
next
  case (Suc n)
  let ?p' = "p\<lparr>index := index p + 1\<rparr>"
  have G: "Get p = (Some (servers p ! (unat (index p + 1) mod length (servers p))), ?p')"
    using Suc.prems by (rule Get_round_robin)
  have IH: "Get_calls n ?p' =
      map (\<lambda>j. Some (servers p ! (unat (index p + 1 + word_of_nat (Suc j)) mod length (servers p))))
          [0..<n]"
    using Suc.IH [of ?p'] Suc.prems by simp
  have "[0..<Suc n] = 0 # map Suc [0..<n]"
    by (simp only: map_Suc_upt upt_conv_Cons [of 0 "Suc n", OF zero_less_Suc])
  then show ?case
    using G IH by (simp add: o_def add.assoc add.commute add.left_commute)
qed

lemma unat_index_advance:
  assumes "N dvd 2 ^ 32 \<or> unat i + m < 2 ^ 32"
  shows "unat (i + word_of_nat m :: 32 word) mod N = (unat i + m) mod N"
proof -
  have e: "unat (i + word_of_nat m :: 32 word) = (unat i + m) mod 2 ^ 32"
    by (simp add: unat_word_ariths unat_of_nat mod_add_right_eq)
  from assms show ?thesis
  proof
    assume "N dvd 2 ^ 32"
    then show ?thesis by (simp add: e mod_mod_cancel)
  next
    assume "unat i + m < 2 ^ 32"
    then show ?thesis by (simp add: e)
  qed
qed

text \<open>
  C9 (amended): for a pool of \<open>N\<close> servers, \<open>1 \<le> N < 2^32\<close>, over \<open>N * k\<close> consecutive
  calls of \<open>Get\<close> during which the 32-bit index does not wrap around (or for any calls
  when \<open>N\<close> divides \<open>2^32\<close>), each server is returned exactly \<open>k\<close> times for each of its
  positions in the list; each call with \<open>N \<ge> 2\<close> returns
  \<open>servers[(incremented index) mod N]\<close>.
\<close>

theorem round_robin_fair_without_wraparound:
  assumes "1 \<le> length (servers p)" "length (servers p) < 2 ^ 32"
    and "length (servers p) dvd 2 ^ 32 \<or> unat (index p) + length (servers p) * k < 2 ^ 32"
  shows "count_list (Get_calls (length (servers p) * k) p) (Some s) = k * count_list (servers p) s
         \<and> (2 \<le> length (servers p) \<longrightarrow>
              Get p = (Some (servers p ! (unat (index p + 1) mod length (servers p))),
                       p\<lparr>index := index p + 1\<rparr>))"
proof (cases "length (servers p) = 1")
  case True
  then obtain x where xs: "servers p = [x]"
    by (cases "servers p") auto
  show ?thesis using True xs by (simp add: Get_calls_single count_list_replicate)
next
  case False
  let ?N = "length (servers p)"
  have ge2: "2 \<le> ?N" using False assms(1) by simp
  have "Get_calls (?N * k) p =
          map (\<lambda>j. Some (servers p ! (unat (index p + word_of_nat (Suc j)) mod ?N))) [0..<?N * k]"
    using ge2 assms(2) by (rule Get_calls_round_robin)
  also have "\<dots> = map (\<lambda>j. Some (servers p ! ((Suc (unat (index p)) + j) mod ?N))) [0..<?N * k]"
  proof (rule map_cong [OF refl])
    fix j assume "j \<in> set [0..<?N * k]"
    then have "?N dvd 2 ^ 32 \<or> unat (index p) + Suc j < 2 ^ 32"
      using assms(3) by auto
    then show "Some (servers p ! (unat (index p + word_of_nat (Suc j)) mod ?N)) =
               Some (servers p ! ((Suc (unat (index p)) + j) mod ?N))"
      using unat_index_advance [of ?N "index p" "Suc j"] by simp
  qed
  finally have calls: "Get_calls (?N * k) p =
      map (\<lambda>j. Some (servers p ! ((Suc (unat (index p)) + j) mod ?N))) [0..<?N * k]" .
  have pos: "0 < ?N" using ge2 by linarith
  have "count_list (Get_calls (?N * k) p) (Some s) = k * count_list (servers p) s"
    by (simp only: calls count_round_robin [OF pos])
  then show ?thesis using Get_round_robin [OF ge2 assms(2)] by simp
qed

text \<open>
  A pool of two or more servers only moves its index; the pool of the counterexample
  below is the new pool of three servers after \<open>2^32 - 2\<close> calls.
\<close>

lemma snd_Get:
  "2 \<le> length (servers p) \<Longrightarrow> snd (Get p) = p\<lparr>index := index p + 1\<rparr>"
  by (auto simp: Get_def Let_def)

lemma pool_after_index:
  "2 \<le> length (servers p) \<Longrightarrow> pool_after n p = p\<lparr>index := index p + word_of_nat n\<rparr>"
proof (induction n arbitrary: p)
  case 0
  show ?case by simp
next
  case (Suc n)
  have "pool_after (Suc n) p = pool_after n (p\<lparr>index := index p + 1\<rparr>)"
    using Suc.prems by (simp add: snd_Get)
  also have "\<dots> = p\<lparr>index := index p + 1 + word_of_nat n\<rparr>"
    using Suc.IH [of "p\<lparr>index := index p + 1\<rparr>"] Suc.prems by simp
  finally show ?case by (simp add: add.assoc add.commute)
qed

lemma pool_before_wrap_reachable:
  "pool_after 4294967294 three_server_pool = pool_before_wrap"
proof -
  have "2 \<le> length (servers three_server_pool)"
    by (simp add: three_server_pool_def NewUpstreamPool_def)
  then show ?thesis
    by (simp add: pool_after_index three_server_pool_def NewUpstreamPool_def pool_before_wrap_def)
qed

text \<open>
  C9, as stated, at three servers and an index two steps before \<open>2^32\<close>, the state
  after \<open>2^32 - 2\<close> calls: the next three calls return the first server twice and the
  third server not at all.
\<close>

theorem round_robin_wraparound_counterexample:
  "\<not> (count_list (Get_calls (length (servers pool_before_wrap) * 1) pool_before_wrap)
         (Some ''9.9.9.9:53'') = 1)"
  by code_simp

text \<open>The theorem at a new pool of three servers, over six calls.\<close>

theorem round_robin_fair_without_wraparound_witness:
  "1 \<le> length (servers three_server_pool) \<and> length (servers three_server_pool) < 2 ^ 32
   \<and> unat (index three_server_pool) + length (servers three_server_pool) * 2 < 2 ^ 32
   \<and> count_list (Get_calls 6 three_server_pool) (Some ''1.1.1.1:53'') = 2
   \<and> Get_calls 6 three_server_pool =
       [Some ''1.1.1.1:53'', Some ''9.9.9.9:53'', Some ''8.8.8.8:53'',
        Some ''1.1.1.1:53'', Some ''9.9.9.9:53'', Some ''8.8.8.8:53'']"
proof -
  have a: "1 \<le> length (servers three_server_pool)"
    by (simp add: three_server_pool_def NewUpstreamPool_def)
  have b: "length (servers three_server_pool) < 2 ^ 32"
    by (simp add: three_server_pool_def NewUpstreamPool_def)
  have c: "unat (index three_server_pool) + length (servers three_server_pool) * 2 < 2 ^ 32"
    by (simp add: three_server_pool_def NewUpstreamPool_def)
  have d: "length (servers three_server_pool) * 2 = 6"
    by (simp add: three_server_pool_def NewUpstreamPool_def)
  have e: "count_list (servers three_server_pool) ''1.1.1.1:53'' = 1" by code_simp
  have f: "Get_calls 6 three_server_pool =
       [Some ''1.1.1.1:53'', Some ''9.9.9.9:53'', Some ''8.8.8.8:53'',
        Some ''1.1.1.1:53'', Some ''9.9.9.9:53'', Some ''8.8.8.8:53'']" by code_simp
  have "count_list (Get_calls (length (servers three_server_pool) * 2) three_server_pool)
          (Some ''1.1.1.1:53'') = 2 * count_list (servers three_server_pool) ''1.1.1.1:53''"
    using round_robin_fair_without_wraparound [OF a b disjI2 [OF c], of "''1.1.1.1:53''"] by blast
  then show ?thesis using a b c f by (simp only: d e) simp
qed

section \<open>The request handler and the cache\<close>

subsection \<open>The keys of the cache stay distinct\<close>

text \<open>
  The association list stands for a map: no operation of the cache introduces a second
  entry for a key, so its length is the number of keys.
\<close>

lemma distinct_evictOldest:
  "distinct (map fst (entries c)) \<Longrightarrow> distinct (map fst (entries (evictOldest c)))"
  by (auto simp: evictOldest_def AList.distinct_delete split: prod.splits)

lemma distinct_cache_Set:
  "distinct (map fst (entries c)) \<Longrightarrow>
     distinct (map fst (entries (cache_Set tts c now domain qtype resp)))"
  by (simp add: cache_Set_def Let_def AList.distinct_update distinct_evictOldest)

lemma distinct_handleDNSRequest:
  "distinct (map fst (entries (cache s))) \<Longrightarrow>
     distinct (map fst (entries (cache (fst (handleDNSRequest tts s env r)))))"
  by (auto simp: handleDNSRequest_def forwardToUpstream_def handleBlockedDomain_def Let_def
        distinct_cache_Set split: option.splits prod.splits sum.splits)

lemma distinct_step:
  "distinct (map fst (entries (cache s))) \<Longrightarrow> distinct (map fst (entries (cache (step tts s ev))))"
  by (cases ev) (simp_all add: distinct_handleDNSRequest cache_Clear_def cleanup_tick_def distinct_map_filter)

lemma distinct_run:
  "distinct (map fst (entries (cache s))) \<Longrightarrow> distinct (map fst (entries (cache (run tts s evs))))"
  by (induction evs arbitrary: s) (simp_all add: distinct_step)

subsection \<open>What a call of the handler can put into the cache\<close>

lemma in_set_update: "x \<in> set (AList.update k v al) \<Longrightarrow> x = (k, v) \<or> x \<in> set al"
  by (induction al) (auto split: if_splits)

lemma in_set_delete: "x \<in> set (AList.delete k al) \<Longrightarrow> x \<in> set al"
  by (simp add: AList.delete_eq)

lemma entries_evictOldest: "x \<in> set (entries (evictOldest c)) \<Longrightarrow> x \<in> set (entries c)"
  by (auto simp: evictOldest_def split: prod.splits if_splits dest: in_set_delete)

lemma entries_cache_Set:
  assumes "x \<in> set (entries (cache_Set tts c now domain qtype resp))"
  shows "x = (makeKey tts domain qtype, \<lparr>response = resp, timestamp = now\<rparr>) \<or> x \<in> set (entries c)"
proof -
  let ?c1 = "if int (length (entries c)) \<ge> maxSize c then evictOldest c else c"
  have "x \<in> set (AList.update (makeKey tts domain qtype) \<lparr>response = resp, timestamp = now\<rparr> (entries ?c1))"
    using assms by (simp add: cache_Set_def Let_def)
  then have "x = (makeKey tts domain qtype, \<lparr>response = resp, timestamp = now\<rparr>) \<or> x \<in> set (entries ?c1)"
    by (rule in_set_update)
  moreover have "x \<in> set (entries ?c1) \<Longrightarrow> x \<in> set (entries c)"
    by (auto dest: entries_evictOldest split: if_splits)
  ultimately show ?thesis by blast
qed

lemma cache_handleBlockedDomain:
  "cache (fst (handleBlockedDomain s env r m domain clientIP)) = cache s"
  by (simp add: handleBlockedDomain_def Let_def)

lemma entries_forwardToUpstream:
  assumes "(k, entry) \<in> set (entries (cache (fst (forwardToUpstream tts s env r m domain qtype))))"
  shows "(k, entry) \<in> set (entries (cache s))
         \<or> (k = makeKey tts domain qtype
            \<and> (\<exists>upstream. req_Exchange env r upstream = Inr (response entry))
            \<and> Rcode (response entry) = RcodeSuccess \<and> Answer (response entry) \<noteq> [])"
proof (cases "Get (upstreamPool s)")
  case (Pair res p')
  show ?thesis
  proof (cases res)
    case None
    then show ?thesis using assms Pair by (simp add: forwardToUpstream_def)
  next
    case (Some upstream)
    show ?thesis
    proof (cases "req_Exchange env r upstream")
      case (Inl err)
      then show ?thesis using assms Pair Some by (simp add: forwardToUpstream_def)
    next
      case (Inr resp)
      show ?thesis
      proof (cases "Rcode resp = RcodeSuccess \<and> length (Answer resp) > 0")
        case False
        then show ?thesis using assms Pair Some Inr
          by (auto simp: forwardToUpstream_def)
      next
        case True
        then have "(k, entry) \<in> set (entries (cache_Set tts (cache s) (req_now_Set env) domain qtype resp))"
          using assms Pair Some Inr by (simp add: forwardToUpstream_def)
        then have "(k, entry) = (makeKey tts domain qtype, \<lparr>response = resp, timestamp = req_now_Set env\<rparr>)
            \<or> (k, entry) \<in> set (entries (cache s))"
          by (rule entries_cache_Set)
        then show ?thesis using True Inr by auto
      qed
    qed
  qed
qed

lemma entries_handleDNSRequest:
  assumes "(k, entry) \<in> set (entries (cache (fst (handleDNSRequest tts s env r))))"
  shows "(k, entry) \<in> set (entries (cache s))
         \<or> (Question r \<noteq> []
            \<and> k = makeKey tts (Name (Question r ! 0)) (Qtype (Question r ! 0))
            \<and> (\<exists>upstream. req_Exchange env r upstream = Inr (response entry))
            \<and> Rcode (response entry) = RcodeSuccess \<and> Answer (response entry) \<noteq> [])"
proof (cases "Question r = []")
  case True
  then show ?thesis using assms by (simp add: handleDNSRequest_def Let_def)
next
  case False
  let ?s1 = "s\<lparr>stats := (stats s)\<lparr>TotalQueries := TotalQueries (stats s) + 1\<rparr>\<rparr>"
  let ?q = "Question r ! 0"
  show ?thesis
  proof (cases "cache_Get tts (cache ?s1) (req_now env) (Name ?q) (Qtype ?q)")
    case (Some cached)
    then show ?thesis using assms False by (simp add: handleDNSRequest_def Let_def)
  next
    case None
    show ?thesis
    proof (cases "filt_Enabled (filtering ?s1)
        \<and> ShouldBlock (Schedule (filtering ?s1)) (req_wall env) (filter_engine ?s1) (Name ?q) (req_clientIP env)")
      case True
      then have "cache (fst (handleDNSRequest tts s env r)) = cache s"
        using False None cache_handleBlockedDomain [of ?s1 env r _ "Name ?q" "req_clientIP env"]
        by (simp add: handleDNSRequest_def Let_def split: prod.splits) (metis fst_conv)
      then show ?thesis using assms by simp
    next
      case nb: False
      then have "handleDNSRequest tts s env r =
          forwardToUpstream tts ?s1 env r ((SetReply new_Msg r)\<lparr>Authoritative := True\<rparr>) (Name ?q) (Qtype ?q)"
        using False None by (auto simp: handleDNSRequest_def Let_def)
      then show ?thesis
        using assms False entries_forwardToUpstream [of k entry tts ?s1 env r _ "Name ?q" "Qtype ?q"]
        by auto
    qed
  qed
qed

lemma upstream_success_mono:
  "upstream_success evs entry \<Longrightarrow> upstream_success (evs @ evs') entry"
  by (auto simp: upstream_success_def)

lemma entries_step:
  assumes "(k, entry) \<in> set (entries (cache (step tts s ev)))"
  shows "(k, entry) \<in> set (entries (cache s)) \<or> upstream_success [ev] entry"
proof (cases ev)
  case (Query env r)
  then show ?thesis
    using assms entries_handleDNSRequest [of k entry tts s env r]
    by (auto simp: upstream_success_def)
next
  case ClearCache
  then show ?thesis using assms by (simp add: cache_Clear_def)
next
  case (Cleanup now)
  then show ?thesis using assms by (auto simp: cleanup_tick_def)
qed

lemma entries_run:
  assumes "(k, entry) \<in> set (entries (cache (run tts s evs)))"
  shows "(k, entry) \<in> set (entries (cache s)) \<or> upstream_success evs entry"
  using assms
proof (induction evs arbitrary: s)
  case Nil
  then show ?case by simp
next
  case (Cons ev evs)
  then have "(k, entry) \<in> set (entries (cache (step tts s ev))) \<or> upstream_success evs entry"
    by simp
  then show ?case
  proof
    assume "(k, entry) \<in> set (entries (cache (step tts s ev)))"
    then show ?thesis using entries_step [of k entry tts s ev]
      by (auto simp: upstream_success_def)
  next
    assume "upstream_success evs entry"
    then show ?thesis by (auto simp: upstream_success_def)
  qed
qed

lemma cache_unchanged_when_blocked:
  assumes "Question r \<noteq> []" "filt_Enabled (filtering s)"
    "ShouldBlock (Schedule (filtering s)) (req_wall env) (filter_engine s)
       (Name (Question r ! 0)) (req_clientIP env)"
  shows "cache (fst (handleDNSRequest tts s env r)) = cache s"
  using assms
  by (auto simp: handleDNSRequest_def handleBlockedDomain_def Let_def split: option.splits)

lemma cache_unchanged_when_upstream_fails:
  assumes "\<forall>upstream. \<exists>err. req_Exchange env r upstream = Inl err"
  shows "cache (fst (handleDNSRequest tts s env r)) = cache s"
proof -
  have fw: "cache (fst (forwardToUpstream tts s' env r m d q)) = cache s'" for s' m d q
  proof (cases "Get (upstreamPool s')")
    case (Pair res p')
    show ?thesis
    proof (cases res)
      case None
      then show ?thesis using Pair by (simp add: forwardToUpstream_def)
    next
      case (Some upstream)
      obtain err where "req_Exchange env r upstream = Inl err" using assms by blast
      then show ?thesis using Pair Some by (simp add: forwardToUpstream_def)
    qed
  qed
  show ?thesis
    by (auto simp: handleDNSRequest_def handleBlockedDomain_def Let_def fw split: option.splits)
qed

text \<open>
  C4: from an empty cache, after any sequence of handled queries, cache clears and
  cleanup ticks, every entry of the cache holds a message that some query of the
  sequence received from an upstream, with rcode \<open>NOERROR\<close> and a non-empty answer
  section; a query that is blocked leaves the cache as it was, and so does a query whose
  upstream exchange fails (the \<open>SERVFAIL\<close> reply).
\<close>

theorem cache_holds_only_upstream_successes:
  "(entries (cache s0) = [] \<longrightarrow>
      (\<forall>(k, entry) \<in> set (entries (cache (run TypeToString s0 evs))). upstream_success evs entry))
   \<and> (Question r \<noteq> [] \<and> filt_Enabled (filtering s)
        \<and> ShouldBlock (Schedule (filtering s)) (req_wall env) (filter_engine s)
             (Name (Question r ! 0)) (req_clientIP env)
      \<longrightarrow> cache (fst (handleDNSRequest TypeToString s env r)) = cache s)
   \<and> ((\<forall>upstream. \<exists>err. req_Exchange env r upstream = Inl err)
      \<longrightarrow> cache (fst (handleDNSRequest TypeToString s env r)) = cache s)"
proof (intro conjI impI)
  assume "entries (cache s0) = []"
  then show "\<forall>(k, entry) \<in> set (entries (cache (run TypeToString s0 evs))). upstream_success evs entry"
    using entries_run [of _ _ TypeToString s0 evs] by auto
next
  assume "Question r \<noteq> [] \<and> filt_Enabled (filtering s)
        \<and> ShouldBlock (Schedule (filtering s)) (req_wall env) (filter_engine s)
             (Name (Question r ! 0)) (req_clientIP env)"
  then show "cache (fst (handleDNSRequest TypeToString s env r)) = cache s"
    by (simp add: cache_unchanged_when_blocked)
next
  assume "\<forall>upstream. \<exists>err. req_Exchange env r upstream = Inl err"
  then show "cache (fst (handleDNSRequest TypeToString s env r)) = cache s"
    by (rule cache_unchanged_when_upstream_fails)
qed

text \<open>
  The theorem at three queries to a new server: one answered by the upstream, one
  blocked, one whose upstream times out. Only the first is in the cache.
\<close>

theorem cache_holds_only_upstream_successes_witness:
  "entries (cache fresh_server) = []
   \<and> entries (cache (run TypeToString_sample fresh_server three_queries))
       = [(''example.com.:A'', cached_example)]
   \<and> upstream_success three_queries cached_example
   \<and> BlockedQueries (stats (run TypeToString_sample fresh_server three_queries)) = 1
   \<and> cache (fst (handleDNSRequest TypeToString_sample fresh_server request_up (query_of 2 ''ads.example.'' 1)))
       = cache fresh_server
   \<and> cache (fst (handleDNSRequest TypeToString_sample fresh_server request_down (query_of 3 ''other.example.'' 1)))
       = cache fresh_server"
proof -
  have e: "entries (cache fresh_server) = []" by code_simp
  have k: "entries (cache (run TypeToString_sample fresh_server three_queries))
       = [(''example.com.:A'', cached_example)]"
    by code_simp
  have b: "BlockedQueries (stats (run TypeToString_sample fresh_server three_queries)) = 1"
    by code_simp
  have q: "Question (query_of 2 ''ads.example.'' 1) \<noteq> [] \<and> filt_Enabled (filtering fresh_server)
      \<and> ShouldBlock (Schedule (filtering fresh_server)) (req_wall request_up) (filter_engine fresh_server)
           (Name (Question (query_of 2 ''ads.example.'' 1) ! 0)) (req_clientIP request_up)"
    by code_simp
  have d: "\<forall>upstream. \<exists>err. req_Exchange request_down (query_of 3 ''other.example.'' 1) upstream = Inl err"
    by (simp add: request_down_def)
  note T = cache_holds_only_upstream_successes
  have "\<forall>(k, entry) \<in> set (entries (cache (run TypeToString_sample fresh_server three_queries))).
          upstream_success three_queries entry"
    using e T [of fresh_server TypeToString_sample three_queries] by blast
  then have u: "upstream_success three_queries cached_example"
    unfolding k by simp
  show ?thesis
    using e k b q d u
      T [of fresh_server TypeToString_sample three_queries "query_of 2 ''ads.example.'' 1"
           fresh_server request_up]
      T [of fresh_server TypeToString_sample three_queries "query_of 3 ''other.example.'' 1"
           fresh_server request_down]
    by blast
qed

subsection \<open>The cache key\<close>




subsection \<open>The total-queries counter\<close>

lemma handleDNSRequest_total:
  "TotalQueries (stats (fst (handleDNSRequest tts s env r))) = TotalQueries (stats s) + 1"
  by (auto simp: handleDNSRequest_def forwardToUpstream_def handleBlockedDomain_def Let_def
      split: option.splits prod.splits sum.splits)

text \<open>
  C10: every message given to the handler increases the total-queries counter by exactly
  one (a \<open>uint64\<close>), also a message with no question: such a message is answered with the
  empty reply (no answers, rcode \<open>NOERROR\<close>) and changes nothing else in the server.
\<close>

theorem every_message_counted:
  "TotalQueries (stats (fst (handleDNSRequest TypeToString s env r))) = TotalQueries (stats s) + 1
   \<and> (length (Question r) = 0 \<longrightarrow>
        handleDNSRequest TypeToString s env r =
          (s\<lparr>stats := (stats s)\<lparr>TotalQueries := TotalQueries (stats s) + 1\<rparr>\<rparr>,
           Some ((SetReply new_Msg r)\<lparr>Authoritative := True\<rparr>))
        \<and> Answer ((SetReply new_Msg r)\<lparr>Authoritative := True\<rparr>) = []
        \<and> Rcode ((SetReply new_Msg r)\<lparr>Authoritative := True\<rparr>) = RcodeSuccess)"
  by (auto simp: handleDNSRequest_total) (auto simp: handleDNSRequest_def Let_def SetReply_def new_Msg_def)

text \<open>
  The theorem at a message with no question to a new server: one query is counted, none
  reached the cache, the filter or an upstream.
\<close>

theorem every_message_counted_witness:
  "length (Question no_question) = 0
   \<and> TotalQueries (stats (fst (handleDNSRequest TypeToString_sample fresh_server request_up no_question))) = 1
   \<and> fst (handleDNSRequest TypeToString_sample fresh_server request_up no_question) =
       fresh_server\<lparr>stats := (stats fresh_server)\<lparr>TotalQueries := 1\<rparr>\<rparr>
   \<and> CachedResponses (stats (fst (handleDNSRequest TypeToString_sample fresh_server request_up no_question))) = 0
   \<and> BlockedQueries (stats (fst (handleDNSRequest TypeToString_sample fresh_server request_up no_question))) = 0"
proof -
  have z: "length (Question no_question) = 0" by code_simp
  have t: "TotalQueries (stats fresh_server) = 0" by code_simp
  have c: "CachedResponses (stats fresh_server) = 0" by code_simp
  have b: "BlockedQueries (stats fresh_server) = 0" by code_simp
  show ?thesis
    using z every_message_counted [of TypeToString_sample fresh_server request_up no_question]
    by (simp add: t c b)
qed

end
